theory Spec2Isabelle
  imports Complex_Main "HOL-Library.Multiset"
begin

section \<open>JavaScript values used by the gift-finder routes\<close>

text \<open>
  A JavaScript number is a double. The routes only compare numbers, subtract them inside
  sort comparators and multiply by a direction of \<open>1\<close> or \<open>-1\<close>; only the sign of those
  results is ever inspected. Rounding never changes the sign of a difference of two doubles
  (an overflow gives an infinity of the right sign), so finite values are carried as
  rationals with exact arithmetic, next to the three special values.
\<close>

datatype jsnum = NaN | NInf | Fin rat | PInf

text \<open>\<open>a === b\<close> on numbers: \<open>NaN\<close> equals nothing.\<close>

definition js_eq :: "jsnum \<Rightarrow> jsnum \<Rightarrow> bool" where
  "js_eq a b = (a \<noteq> NaN \<and> b \<noteq> NaN \<and> a = b)"

text \<open>\<open>a - b\<close> on numbers.\<close>

fun js_sub :: "jsnum \<Rightarrow> jsnum \<Rightarrow> jsnum" where
  "js_sub (Fin a) (Fin b) = Fin (a - b)"
| "js_sub (Fin a) PInf = NInf"
| "js_sub (Fin a) NInf = PInf"
| "js_sub PInf (Fin b) = PInf"
| "js_sub PInf NInf = PInf"
| "js_sub NInf (Fin b) = NInf"
| "js_sub NInf PInf = NInf"
| "js_sub PInf PInf = NaN"
| "js_sub NInf NInf = NaN"
| "js_sub NaN b = NaN"
| "js_sub a NaN = NaN"

definition is_pos :: "jsnum \<Rightarrow> bool" where
  "is_pos v = (case v of Fin r \<Rightarrow> 0 < r | PInf \<Rightarrow> True | _ \<Rightarrow> False)"

definition is_neg :: "jsnum \<Rightarrow> bool" where
  "is_neg v = (case v of Fin r \<Rightarrow> r < 0 | NInf \<Rightarrow> True | _ \<Rightarrow> False)"

text \<open>\<open>a * b\<close> on numbers (\<open>0 * Infinity\<close> is \<open>NaN\<close>).\<close>

definition js_mul :: "jsnum \<Rightarrow> jsnum \<Rightarrow> jsnum" where
  "js_mul a b =
     (case (a, b) of
        (Fin x, Fin y) \<Rightarrow> Fin (x * y)
      | _ \<Rightarrow> if a = NaN \<or> b = NaN \<or> a = Fin 0 \<or> b = Fin 0 then NaN
             else if is_neg a = is_neg b then PInf else NInf)"

text \<open>
  The order of the numbers other than \<open>NaN\<close>: \<open>-Infinity\<close> below every finite value,
  \<open>Infinity\<close> above.
\<close>

fun num_le :: "jsnum \<Rightarrow> jsnum \<Rightarrow> bool" where
  "num_le NaN b = False"
| "num_le a NaN = False"
| "num_le NInf b = True"
| "num_le a PInf = True"
| "num_le (Fin a) (Fin b) = (a \<le> b)"
| "num_le a b = False"

text \<open>
  JSON values, as \<open>JSON.parse\<close> returns them and as the model sends them to the UI
  components. An object is its list of members in order; a member is read with \<open>map_of\<close>.
\<close>

datatype json =
    JNull
  | JBool bool
  | JNum rat
  | JStr string
  | JArr "json list"
  | JObj "(string \<times> json) list"

text \<open>Truthiness of a JSON value (\<open>!!v\<close>).\<close>

fun truthy :: "json \<Rightarrow> bool" where
  "truthy JNull = False"
| "truthy (JBool b) = b"
| "truthy (JNum r) = (r \<noteq> 0)"
| "truthy (JStr s) = (s \<noteq> [])"
| "truthy (JArr xs) = True"
| "truthy (JObj ms) = True"

text \<open>
  \<open>v.f\<close> for a parsed JSON value \<open>v\<close> and a field \<open>f\<close> that is no built-in property of
  strings or arrays: \<open>None\<close> is \<open>undefined\<close>.
\<close>

fun js_get :: "json \<Rightarrow> string \<Rightarrow> json option" where
  "js_get (JObj ms) f = map_of ms f"
| "js_get v f = None"

subsection \<open>Array.prototype.slice and Array.prototype.sort\<close>

text \<open>\<open>ToIntegerOrInfinity\<close> of a finite number: truncation towards zero.\<close>

definition js_trunc :: "rat \<Rightarrow> int" where
  "js_trunc r = (if 0 \<le> r then \<lfloor>r\<rfloor> else \<lceil>r\<rceil>)"

text \<open>
  \<open>xs.slice(0, e)\<close>: a negative end counts from the end of the array, and the end is
  clamped to the array.
\<close>

definition js_slice0 :: "'a list \<Rightarrow> rat \<Rightarrow> 'a list" where
  "js_slice0 xs e =
     (let n = int (length xs); r = js_trunc e;
          final = (if r < 0 then max (n + r) 0 else min r n)
      in take (nat final) xs)"

text \<open>
  \<open>xs.sort(cmp)\<close>. The sort is stable, and the comparator's result \<open>v\<close> puts \<open>a\<close> after
  \<open>b\<close> only when \<open>v > 0\<close> (a \<open>NaN\<close> result counts as \<open>0\<close>). For a consistent comparator
  the result of a stable sort is unique, and the stable insertion sort computes it; for an
  inconsistent one ECMAScript leaves the order to the implementation.
\<close>

fun js_insert :: "('a \<Rightarrow> 'a \<Rightarrow> jsnum) \<Rightarrow> 'a \<Rightarrow> 'a list \<Rightarrow> 'a list" where
  "js_insert cmp x [] = [x]"
| "js_insert cmp x (y # ys) =
     (if is_pos (cmp x y) then y # js_insert cmp x ys else x # y # ys)"

fun js_sort :: "('a \<Rightarrow> 'a \<Rightarrow> jsnum) \<Rightarrow> 'a list \<Rightarrow> 'a list" where
  "js_sort cmp [] = []"
| "js_sort cmp (x # xs) = js_insert cmp x (js_sort cmp xs)"

section \<open>search\_redis: result rows and the final ordering\<close>

text \<open>
  A row as built at lines 118--131 of the route: \<open>None\<close> is \<open>undefined\<close> (or \<open>null\<close> for
  the three optional text fields). \<open>price\<close> and \<open>score\<close> hold the result of \<open>Number\<close>
  when present, which may be \<open>NaN\<close>. The field \<open>keywords\<close> is written \<open>keywords'\<close>, the
  plain word being reserved.
\<close>

record item =
  code :: "string option"
  title :: "string option"
  brand :: "string option"
  category :: "string option"
  keywords' :: "string option"
  price :: "jsnum option"
  score :: "jsnum option"
  product :: "json option"

text \<open>
  \<open>typeof a.price === 'number' ? a.price : Number.POSITIVE_INFINITY\<close>; \<open>NaN\<close> is of type
  number and stays.
\<close>

definition price_key :: "item \<Rightarrow> jsnum" where
  "price_key a = (case price a of Some n \<Rightarrow> n | None \<Rightarrow> PInf)"

text \<open>\<open>a.score ?? 0\<close>\<close>

definition score_key :: "item \<Rightarrow> jsnum" where
  "score_key a = (case score a of Some n \<Rightarrow> n | None \<Rightarrow> Fin 0)"

text \<open>The comparator of lines 149--154, for a direction \<open>dir\<close>.\<close>

definition compare_items :: "jsnum \<Rightarrow> item \<Rightarrow> item \<Rightarrow> jsnum" where
  "compare_items dir a b =
     (let pa = price_key a; pb = price_key b
      in if js_eq pa pb then js_sub (score_key a) (score_key b)
         else js_mul dir (js_sub pa pb))"

text \<open>\<open>sort_by === 'price_desc' ? 'price_desc' : 'price_asc'\<close> (lines 62--63).\<close>

definition resolve_order :: "string option \<Rightarrow> string" where
  "resolve_order sort_by = (if sort_by = Some ''price_desc'' then ''price_desc'' else ''price_asc'')"

text \<open>\<open>order === 'price_asc' ? 1 : -1\<close> (line 146).\<close>

definition dir_of :: "string \<Rightarrow> jsnum" where
  "dir_of order = (if order = ''price_asc'' then Fin 1 else Fin (- 1))"

text \<open>\<open>items.slice().sort(...).slice(0, kLimit)\<close> (lines 147--155).\<close>

definition final_order :: "string \<Rightarrow> rat \<Rightarrow> item list \<Rightarrow> item list" where
  "final_order order kLimit items = js_slice0 (js_sort (compare_items (dir_of order)) items) kLimit"

text \<open>\<open>Math.min(5, Number(k) || 5)\<close> for a numeric \<open>k\<close> (line 66); \<open>0\<close> is falsy.\<close>

definition kLimit_of :: "rat \<Rightarrow> rat" where
  "kLimit_of k = min 5 (if k = 0 then 5 else k)"

text \<open>\<open>Math.min(50, Math.max(kLimit, kLimit * 3))\<close> (line 67).\<close>

definition kQuery_of :: "rat \<Rightarrow> rat" where
  "kQuery_of kLimit = min 50 (max kLimit (kLimit * 3))"

section \<open>The collaborators of the routes\<close>

text \<open>
  The routes call a Redis client, the embedding provider and three built-ins of the
  JavaScript host. Each call is recorded as an event, and a collaborator answers from the
  events so far, so that it may answer the same call differently the second time. A thrown
  value is an error with a name and a message. Strings are lists of 8-bit characters.
\<close>

type_synonym embedding = "rat list"

text \<open>An argument of \<open>sendCommand\<close>: a string or a Buffer (here the Float32 buffer of a vector).\<close>

datatype arg = S string | Buf embedding

datatype event = GetRedisClient | EmbeddingsCreate string | SendCommand "arg list"

datatype jserror = Error string string

text \<open>\<open>error?.message || String(error)\<close> (line 170).\<close>

fun error_details :: "jserror \<Rightarrow> string" where
  "error_details (Error nm msg) = (if msg \<noteq> [] then msg else nm)"

text \<open>
  \<open>ft_search\<close> and \<open>json_get\<close> are \<open>redis.sendCommand\<close> for the two commands the routes
  send, with the reply each has: the documents of an \<open>FT.SEARCH\<close> reply
  \<open>[total, key, fields, key, fields, ...]\<close> as pairs of a key and a flat list of field names
  and values, and the text of a \<open>JSON.GET\<close> reply or \<open>None\<close> for \<open>null\<close>.
  \<open>embeddings_create\<close> stands for \<open>new OpenAI()\<close> and \<open>openai.embeddings.create\<close>.
  \<open>js_Number\<close> is \<open>Number\<close> on strings, \<open>js_String\<close> is \<open>String\<close> on numbers, and
  \<open>JSON_parse\<close> is \<open>JSON.parse\<close> with \<open>None\<close> for a SyntaxError.
\<close>

record host =
  getRedisClient :: "event list \<Rightarrow> jserror option"
  embeddings_create :: "event list \<Rightarrow> string \<Rightarrow> jserror + embedding"
  ft_search :: "event list \<Rightarrow> arg list \<Rightarrow> jserror + (string \<times> string list) list"
  json_get :: "event list \<Rightarrow> arg list \<Rightarrow> jserror + string option"
  js_Number :: "string \<Rightarrow> jsnum"
  js_String :: "rat \<Rightarrow> string"
  JSON_parse :: "string \<Rightarrow> json option"
  INDEX_NAME :: string
  JSON_PREFIX :: string

section \<open>search\_redis: the route\<close>

text \<open>
  The parsed request body. \<open>query_text\<close> is any JSON value and the numeric fields are
  numbers, \<open>None\<close> being an absent or \<open>null\<close> field (an absent \<open>k\<close> defaults to 8 and a
  \<open>null\<close> one counts as 0, both giving the cap 5). \<open>include_details\<close> is \<open>None\<close> when
  absent and its truthiness otherwise; \<open>expanded\<close> is its truthiness.
\<close>

record request =
  query_text :: "json option"
  k :: "rat option"
  min_price :: "rat option"
  max_price :: "rat option"
  include_details :: "bool option"
  expanded :: bool
  sort_by :: "string option"

datatype body =
    ErrorBody string "string option"
  | ResultBody nat rat "rat option \<times> rat option" string string "item list"

datatype response = Response nat body

fun status :: "response \<Rightarrow> nat" where
  "status (Response st b) = st"


fun items :: "response \<Rightarrow> item list" where
  "items (Response st (ResultBody cnt kl fs ord md its)) = its"
| "items (Response st b) = []"

text \<open>The whitespace of \<open>\s\<close> and of \<open>trim\<close> among the 8-bit characters.\<close>

definition is_space :: "char \<Rightarrow> bool" where
  "is_space c = (c \<in> set [CHR 0x09, CHR 0x0A, CHR 0x0B, CHR 0x0C, CHR 0x0D, CHR 0x20, CHR 0xA0])"

text \<open>\<open>s.replace(/\s+/g, ' ')\<close>\<close>

function collapse_ws :: "string \<Rightarrow> string" where
  "collapse_ws [] = []"
| "collapse_ws (c # cs) =
     (if is_space c then CHR '' '' # collapse_ws (dropWhile is_space cs) else c # collapse_ws cs)"
  by pat_completeness auto
termination
  by (relation "measure length") (auto simp: less_Suc_eq_le length_dropWhile_le)

definition trim :: "string \<Rightarrow> string" where
  "trim s = rev (dropWhile is_space (rev (dropWhile is_space s)))"

text \<open>\<open>sanitize\<close> (lines 5--11) on a string.\<close>

definition sanitize :: "string \<Rightarrow> nat \<Rightarrow> string" where
  "sanitize t mx =
     (let s0 = trim (collapse_ws (map (\<lambda>c. if c = CHR 0x00 then CHR '' '' else c) t));
          s1 = (if s0 = [] then ''.'' else s0)
      in if mx < length s1 then take mx s1 else s1)"

text \<open>The price filter (lines 41--47).\<close>

definition filterExpr :: "host \<Rightarrow> request \<Rightarrow> string" where
  "filterExpr h req =
     (if min_price req \<noteq> None \<or> max_price req \<noteq> None then
        (let lo = (case min_price req of Some v \<Rightarrow> js_String h v | None \<Rightarrow> ''-inf'');
             hi = (case max_price req of Some v \<Rightarrow> js_String h v | None \<Rightarrow> ''+inf'')
         in ''(@price:['' @ lo @ '' '' @ hi @ '']|@prezzo:['' @ lo @ '' '' @ hi @ ''])'')
      else ''*'')"

definition returnFields :: "string list" where
  "returnFields =
     [''code'', ''title'', ''brand'', ''category'', ''keywords'', ''price'', ''prezzo'', ''score'']"

text \<open>Lines 80--98.\<close>

definition argsWithDialect :: "host \<Rightarrow> string \<Rightarrow> rat \<Rightarrow> embedding \<Rightarrow> arg list" where
  "argsWithDialect h fe kQuery vec =
     [S ''FT.SEARCH'', S (INDEX_NAME h),
      S (''('' @ fe @ '')=>[KNN '' @ js_String h kQuery @ '' @embedding $vec AS score]''),
      S ''PARAMS'', S ''2'', S ''vec'', Buf vec, S ''SORTBY'', S ''score'', S ''LIMIT'', S ''0'',
      S (js_String h kQuery), S ''RETURN'', S (js_String h (of_nat (length returnFields)))]
     @ map S returnFields @ [S ''DIALECT'', S ''2'']"

text \<open>\<open>argsWithDialect.slice(0, -2)\<close> (line 99).\<close>

definition argsNoDialect :: "arg list \<Rightarrow> arg list" where
  "argsNoDialect args = js_slice0 args (- 2)"

definition failure :: "jserror \<Rightarrow> response" where
  "failure e = Response 500 (ErrorBody ''Failed to query Redis'' (Some (error_details e)))"

text \<open>The text that is embedded (lines 37 and 52), for a request text \<open>qt\<close>.\<close>

definition expandedQuery :: "request \<Rightarrow> string \<Rightarrow> string" where
  "expandedQuery req qt =
     (let q = sanitize qt 12000
      in if expanded req then q @ '' alternative simili correlati'' else q)"

text \<open>\<open>k = 8\<close> in the destructuring (line 23) and line 66.\<close>

definition kLimit_req :: "request \<Rightarrow> rat" where
  "kLimit_req req = kLimit_of (case k req of Some n \<Rightarrow> n | None \<Rightarrow> 8)"


text \<open>
  Lines 31--106: the request is checked, the client obtained, the text embedded and the
  index queried. The result is the early response, or the documents of the reply; with it
  comes the list of calls made.
\<close>

definition query_index ::
  "host \<Rightarrow> request \<Rightarrow> (response + (string \<times> string list) list) \<times> event list" where
  "query_index h req =
     (case query_text req of
        Some (JStr qt) \<Rightarrow>
          if qt = [] then (Inl (Response 400 (ErrorBody ''Missing query_text'' None)), [])
          else
            let t1 = [GetRedisClient] in
            (case getRedisClient h [] of
               Some e \<Rightarrow> (Inl (failure e), t1)
             | None \<Rightarrow>
                 let fe = filterExpr h req;
                     t2 = t1 @ [EmbeddingsCreate (expandedQuery req qt)] in
                 (case embeddings_create h t1 (expandedQuery req qt) of
                    Inl e \<Rightarrow> (Inl (failure e), t2)
                  | Inr vec \<Rightarrow>
                      let kQuery = kQuery_of (kLimit_req req);
                          args = argsWithDialect h fe kQuery vec;
                          t3 = t2 @ [SendCommand args] in
                      (case ft_search h t2 args of
                         Inr raw \<Rightarrow> (Inr raw, t3)
                       | Inl e1 \<Rightarrow>
                           let t4 = t3 @ [SendCommand (argsNoDialect args)] in
                           (case ft_search h t3 (argsNoDialect args) of
                              Inr raw \<Rightarrow> (Inr raw, t4)
                            | Inl e2 \<Rightarrow> (Inl (failure e2), t4)))))
      | _ \<Rightarrow> (Inl (Response 400 (ErrorBody ''Missing query_text'' None)), []))"

text \<open>Lines 111--116: the flat field list of a document becomes an object.\<close>

fun doc_obj :: "string list \<Rightarrow> (string \<rightharpoonup> string) \<Rightarrow> (string \<rightharpoonup> string)" where
  "doc_obj (f # v # rest) obj = doc_obj rest (obj(f \<mapsto> v))"
| "doc_obj [f] obj = obj(f \<mapsto> [])"
| "doc_obj [] obj = obj"

text \<open>Lines 117--131.\<close>

definition mk_row :: "host \<Rightarrow> (string \<rightharpoonup> string) \<Rightarrow> item" where
  "mk_row h obj =
     \<lparr> code = obj ''code'', title = obj ''title'', brand = obj ''brand'',
       category = obj ''category'', keywords' = obj ''keywords'',
       price = (case obj ''price'' of
                  Some p \<Rightarrow> Some (js_Number h p)
                | None \<Rightarrow> (case obj ''prezzo'' of Some p \<Rightarrow> Some (js_Number h p) | None \<Rightarrow> None)),
       score = (case obj ''score'' of
                  Some s \<Rightarrow> if s \<noteq> [] then Some (js_Number h s) else None
                | None \<Rightarrow> None),
       product = None \<rparr>"

text \<open>
  Lines 132--142: the detail lookup of one row. A failed command and a text that does not
  parse end in the empty \<open>catch\<close>, with the row unchanged.
\<close>

definition add_details :: "host \<Rightarrow> bool \<Rightarrow> event list \<Rightarrow> item \<Rightarrow> item \<times> event list" where
  "add_details h incl t row =
     (case code row of
        Some c \<Rightarrow>
          if incl \<and> c \<noteq> [] then
            let cmd = [S ''JSON.GET'', S (JSON_PREFIX h @ c)]; t' = t @ [SendCommand cmd] in
            (case json_get h t cmd of
               Inl e \<Rightarrow> (row, t')
             | Inr None \<Rightarrow> (row, t')
             | Inr (Some jtext) \<Rightarrow>
                 if jtext = [] then (row, t')
                 else (case JSON_parse h jtext of
                         None \<Rightarrow> (row, t')
                       | Some j \<Rightarrow> (row\<lparr>product := Some j\<rparr>, t')))
          else (row, t)
      | None \<Rightarrow> (row, t))"

text \<open>The row of a document of the reply, before its details are looked up.\<close>

fun row_of :: "host \<Rightarrow> string \<times> string list \<Rightarrow> item" where
  "row_of h (key, doc) = mk_row h (doc_obj doc Map.empty)"

text \<open>The loop of lines 108--144 over the documents of the reply.\<close>

fun build_items ::
  "host \<Rightarrow> bool \<Rightarrow> event list \<Rightarrow> (string \<times> string list) list \<Rightarrow> item list \<times> event list" where
  "build_items h incl t [] = ([], t)"
| "build_items h incl t (d # rest) =
     (let (row, t1) = add_details h incl t (row_of h d);
          (rows, t2) = build_items h incl t1 rest
      in (row # rows, t2))"

text \<open>The route: the response and the calls made, in order.\<close>

definition POST :: "host \<Rightarrow> request \<Rightarrow> response \<times> event list" where
  "POST h req =
     (case query_index h req of
        (Inl early, t) \<Rightarrow> (early, t)
      | (Inr raw, t) \<Rightarrow>
          let incl = (case include_details req of Some b \<Rightarrow> b | None \<Rightarrow> True);
              order = resolve_order (sort_by req);
              kLimit = kLimit_req req;
              (its, t') = build_items h incl t raw;
              out = final_order order kLimit its
          in (Response 200
                (ResultBody (length out) kLimit (min_price req, max_price req) order
                   ''semantic'' out), t'))"

subsection \<open>Observations on a run of the route\<close>

text \<open>The \<open>FT.SEARCH\<close> commands among the calls made.\<close>

fun ft_search_calls :: "event list \<Rightarrow> arg list list" where
  "ft_search_calls [] = []"
| "ft_search_calls (SendCommand (S c # as) # t) =
     (if c = ''FT.SEARCH'' then (S c # as) # ft_search_calls t else ft_search_calls t)"
| "ft_search_calls (e # t) = ft_search_calls t"


text \<open>
  The detail lookup of a row fails, after the calls \<open>t\<close>: the command throws, or its text
  is not JSON.
\<close>

definition lookup_failed :: "host \<Rightarrow> event list \<Rightarrow> item \<Rightarrow> bool" where
  "lookup_failed h t row =
     (case code row of
        Some c \<Rightarrow>
          (case json_get h t [S ''JSON.GET'', S (JSON_PREFIX h @ c)] of
             Inl e \<Rightarrow> True
           | Inr None \<Rightarrow> False
           | Inr (Some jtext) \<Rightarrow> jtext \<noteq> [] \<and> JSON_parse h jtext = None)
      | None \<Rightarrow> False)"


text \<open>A row without its detail payload.\<close>

definition strip :: "item \<Rightarrow> item" where
  "strip r = r\<lparr>product := None\<rparr>"

text \<open>A row whose price and score are numbers other than \<open>NaN\<close>, or missing.\<close>

definition numeric :: "item \<Rightarrow> bool" where
  "numeric a = (price a \<noteq> Some NaN \<and> score a \<noteq> Some NaN)"

definition num_lt :: "jsnum \<Rightarrow> jsnum \<Rightarrow> bool" where
  "num_lt a b = (num_le a b \<and> a \<noteq> b)"

text \<open>
  The order the comparator stands for: by price key, upwards or downwards, and by score
  key upwards among equal prices.
\<close>

definition item_le :: "bool \<Rightarrow> item \<Rightarrow> item \<Rightarrow> bool" where
  "item_le asc a b =
     ((if asc then num_lt (price_key a) (price_key b) else num_lt (price_key b) (price_key a))
      \<or> (price_key a = price_key b \<and> num_le (score_key a) (score_key b)))"

subsection \<open>A host for worked examples\<close>

text \<open>
  Decimal digits of a natural number, as \<open>String\<close> prints a non-negative integer below
  \<open>10^21\<close>.
\<close>

definition digit_char :: "nat \<Rightarrow> char" where
  "digit_char d = char_of (48 + d)"

function dec :: "nat \<Rightarrow> string" where
  "dec n = (if n < 10 then [digit_char n] else dec (n div 10) @ [digit_char (n mod 10)])"
  by pat_completeness auto
termination
  by (relation "measure id") auto

definition sample_String :: "rat \<Rightarrow> string" where
  "sample_String r = (if 0 \<le> r then dec (nat \<lfloor>r\<rfloor>) else CHR ''-'' # dec (nat \<lfloor>- r\<rfloor>))"

text \<open>
  \<open>Number\<close> on the strings of the examples: decimal digits, with an optional fraction
  part between digits, are read as their value, and the other texts used below, which hold
  a letter, are \<open>NaN\<close>.
\<close>

definition is_digit :: "char \<Rightarrow> bool" where
  "is_digit c = (48 \<le> (of_char c :: nat) \<and> (of_char c :: nat) \<le> 57)"

definition digits_value :: "string \<Rightarrow> nat" where
  "digits_value s = foldl (\<lambda>n c. 10 * n + (of_char c - 48)) 0 s"

definition sample_Number :: "string \<Rightarrow> jsnum" where
  "sample_Number s =
     (let a = takeWhile (\<lambda>c. c \<noteq> CHR ''.'') s; b = dropWhile (\<lambda>c. c \<noteq> CHR ''.'') s
      in if a = [] \<or> \<not> list_all is_digit a then NaN
         else if b = [] then Fin (of_nat (digits_value a))
         else if tl b \<noteq> [] \<and> list_all is_digit (tl b)
           then Fin (of_nat (digits_value a) + of_nat (digits_value (tl b)) / 10 ^ length (tl b))
           else NaN)"

text \<open>
  The example host: every call succeeds, the index returns the given documents, and no
  product has stored details.
\<close>

definition sample_host :: "(string \<times> string list) list \<Rightarrow> host" where
  "sample_host docs =
     \<lparr> getRedisClient = (\<lambda>t. None),
       embeddings_create = (\<lambda>t s. Inr [1 / 2, 1 / 4]),
       ft_search = (\<lambda>t as. Inr docs),
       json_get = (\<lambda>t as. Inr None),
       js_Number = sample_Number,
       js_String = sample_String,
       JSON_parse = (\<lambda>s. None),
       INDEX_NAME = ''idx:products'',
       JSON_PREFIX = ''prod:'' \<rparr>"


text \<open>
  An index of an older protocol: it rejects a command that carries the \<open>DIALECT\<close>
  argument.
\<close>

definition legacy_host :: "(string \<times> string list) list \<Rightarrow> host" where
  "legacy_host docs =
     (sample_host docs)\<lparr>ft_search :=
        (\<lambda>t as. if S ''DIALECT'' \<in> set as
                then Inl (Error ''ReplyError'' ''Unknown argument DIALECT'')
                else Inr docs)\<rparr>"

text \<open>
  A store with details: the lookup of product \<open>A\<close> throws, the text stored for \<open>B\<close> is
  no JSON, and product \<open>7\<close> has an object with a code and an id. \<open>sample_parse\<close> is
  \<open>JSON.parse\<close> on these texts.
\<close>

definition stored_text :: string where
  \<open>stored_text = ''{"code":"A1","id":"7"}''\<close>

definition sample_parse :: "string \<Rightarrow> json option" where
  "sample_parse s =
     (if s = stored_text then Some (JObj [(''code'', JStr ''A1''), (''id'', JStr ''7'')])
      else if s = ''{}'' then Some (JObj [])
      else None)"

definition catalog_host :: "(string \<times> string list) list \<Rightarrow> host" where
  "catalog_host docs =
     (sample_host docs)\<lparr>json_get :=
        (\<lambda>t as. if as = [S ''JSON.GET'', S ''prod:A''] then Inl (Error ''Error'' ''Connection lost'')
                else if as = [S ''JSON.GET'', S ''prod:B''] then Inr (Some ''{oops'')
                else if as = [S ''JSON.GET'', S ''prod:7''] then Inr (Some stored_text)
                else Inr None),
        JSON_parse := sample_parse\<rparr>"

text \<open>Replies of the index, in the order of the nearest neighbours.\<close>

definition docsAB :: "(string \<times> string list) list" where
  "docsAB =
     [(''prod:A'', [''code'', ''A'', ''price'', ''20'', ''score'', ''0.1'']),
      (''prod:B'', [''code'', ''B'', ''price'', ''10'', ''score'', ''0.3''])]"

definition docs6 :: "(string \<times> string list) list" where
  "docs6 =
     [(''prod:P1'', [''code'', ''P1'', ''price'', ''12'', ''score'', ''0.10'']),
      (''prod:P2'', [''code'', ''P2'', ''price'', ''30'', ''score'', ''0.12'']),
      (''prod:P3'', [''code'', ''P3'', ''price'', ''10'', ''score'', ''0.15'']),
      (''prod:P4'', [''code'', ''P4'', ''price'', ''25'', ''score'', ''0.20'']),
      (''prod:P5'', [''code'', ''P5'', ''price'', ''18'', ''score'', ''0.22'']),
      (''prod:P6'', [''code'', ''P6'', ''price'', ''11'', ''score'', ''0.30''])]"

definition docsA6 :: "(string \<times> string list) list" where
  "docsA6 =
     [(''prod:A'', [''code'', ''A'', ''price'', ''99'', ''score'', ''0.05'']),
      (''prod:P1'', [''code'', ''P1'', ''price'', ''12'', ''score'', ''0.10'']),
      (''prod:P2'', [''code'', ''P2'', ''price'', ''30'', ''score'', ''0.12'']),
      (''prod:P3'', [''code'', ''P3'', ''price'', ''10'', ''score'', ''0.15'']),
      (''prod:P4'', [''code'', ''P4'', ''price'', ''25'', ''score'', ''0.20'']),
      (''prod:P5'', [''code'', ''P5'', ''price'', ''18'', ''score'', ''0.22''])]"

text \<open>A row with a code, a price and a score only.\<close>

definition sample_item :: "string \<Rightarrow> jsnum option \<Rightarrow> jsnum option \<Rightarrow> item" where
  "sample_item c p sc =
     \<lparr> code = Some c, title = None, brand = None, category = None, keywords' = None,
       price = p, score = sc, product = None \<rparr>"

definition sample_request :: "string \<Rightarrow> request" where
  "sample_request qt =
     \<lparr> query_text = Some (JStr qt), k = None, min_price = None, max_price = None,
       include_details = None, expanded = False, sort_by = None \<rparr>"

section \<open>get\_product: the detail lookup\<close>

datatype get_body =
    GetError string
  | GetResult bool json json

datatype get_response = GetResponse nat get_body

fun get_code :: "get_response \<Rightarrow> json" where
  "get_code (GetResponse st (GetResult fnd c p)) = c"
| "get_code (GetResponse st b) = JNull"

fun get_product :: "get_response \<Rightarrow> json" where
  "get_product (GetResponse st (GetResult fnd c p)) = p"
| "get_product (GetResponse st b) = JNull"

text \<open>\<open>a || b\<close> and \<open>a && b\<close> on values, \<open>None\<close> being \<open>undefined\<close>.\<close>

definition js_or :: "json option \<Rightarrow> json option \<Rightarrow> json option" where
  "js_or a b = (case a of Some v \<Rightarrow> if truthy v then a else b | None \<Rightarrow> b)"

definition js_and :: "json option \<Rightarrow> json option \<Rightarrow> json option" where
  "js_and a b = (case a of Some v \<Rightarrow> if truthy v then b else a | None \<Rightarrow> a)"

text \<open>\<open>url.searchParams.get(p) || undefined\<close>: an absent and an empty parameter are \<open>None\<close>.\<close>

definition param :: "string option \<Rightarrow> string option" where
  "param p = (case p of Some s \<Rightarrow> if s = [] then None else Some s | None \<Rightarrow> None)"

text \<open>Lines 20--27 of the handler: the lookup, with \<open>null\<close> for every failure.\<close>

definition fetch_product :: "host \<Rightarrow> event list \<Rightarrow> arg list \<Rightarrow> json" where
  "fetch_product h t cmd =
     (case json_get h t cmd of
        Inl e \<Rightarrow> JNull
      | Inr None \<Rightarrow> JNull
      | Inr (Some jtext) \<Rightarrow>
          if jtext = [] then JNull
          else (case JSON_parse h jtext of None \<Rightarrow> JNull | Some j \<Rightarrow> j))"

text \<open>\<open>(product && (product.code || product.id)) || code || id || null\<close> (line 29).\<close>

definition codeOut :: "json \<Rightarrow> string option \<Rightarrow> string option \<Rightarrow> json option" where
  "codeOut pr c i =
     js_or (js_or (js_or (js_and (Some pr) (js_or (js_get pr ''code'') (js_get pr ''id'')))
                         (map_option JStr c))
                  (map_option JStr i))
           (Some JNull)"

text \<open>The handler, on the two query parameters as the URL carries them.\<close>

definition GET :: "host \<Rightarrow> string option \<Rightarrow> string option \<Rightarrow> get_response \<times> event list" where
  "GET h code_param id_param =
     (let c = param code_param; i = param id_param in
      if c = None \<and> i = None then (GetResponse 400 (GetError ''Missing code or id''), [])
      else
        (case getRedisClient h [] of
           Some e \<Rightarrow> (GetResponse 500 (GetError ''Failed to fetch product''), [GetRedisClient])
         | None \<Rightarrow>
             let jsonKey = JSON_PREFIX h @ (case i of Some s \<Rightarrow> s | None \<Rightarrow> (case c of Some s \<Rightarrow> s | None \<Rightarrow> []));
                 cmd = [S ''JSON.GET'', S jsonKey];
                 pr = fetch_product h [GetRedisClient] cmd
             in (GetResponse 200
                   (GetResult (truthy pr) (case codeOut pr c i of Some v \<Rightarrow> v | None \<Rightarrow> JNull) pr),
                 [GetRedisClient, SendCommand cmd])))"

section \<open>The plp\_grid component\<close>

text \<open>\<open>columns && columns >= 1 ? Math.min(columns, 6) : 3\<close> (line 210), \<open>None\<close> being an absent prop.\<close>

definition plp_cols :: "rat option \<Rightarrow> rat" where
  "plp_cols columns = (case columns of Some c \<Rightarrow> if c \<noteq> 0 \<and> 1 \<le> c then min c 6 else 3 | None \<Rightarrow> 3)"

text \<open>Lines 212--221.\<close>

definition gridColsClass :: "rat \<Rightarrow> string" where
  "gridColsClass cols =
     (if cols = 2 then ''md:grid-cols-2''
      else if cols = 4 then ''md:grid-cols-4''
      else if cols = 5 then ''md:grid-cols-5''
      else if cols = 6 then ''md:grid-cols-6''
      else ''md:grid-cols-3'')"

text \<open>\<open>typeof a?.match === 'number' ? a.match : 0\<close>\<close>

definition match_key :: "json \<Rightarrow> rat" where
  "match_key a = (case js_get a ''match'' of Some (JNum m) \<Rightarrow> m | _ \<Rightarrow> 0)"

text \<open>Lines 222--226: \<open>(children || []).slice().sort(...)\<close>.\<close>

definition sorted_children :: "json list option \<Rightarrow> json list" where
  "sorted_children children =
     js_sort (\<lambda>a b. js_sub (Fin (match_key b)) (Fin (match_key a)))
       (case children of Some cs \<Rightarrow> cs | None \<Rightarrow> [])"

text \<open>
  What the component lays out: the class of the grid and the children in the order they
  are rendered.
\<close>

definition PlpGridComponent :: "json list option \<Rightarrow> rat option \<Rightarrow> string \<times> json list" where
  "PlpGridComponent children columns =
     (''grid grid-cols-1 '' @ gridColsClass (plp_cols columns) @ '' gap-4 w-full'',
      sorted_children children)"

section \<open>The schema of the generate\_ui tool\<close>

text \<open>
  A component definition of the registry \<open>config/components-definition\<close>: its name and
  its parameters, an object from parameter names to schema fragments. The registry is an
  argument of everything below.
\<close>

record component =
  name :: string
  parameters :: "(string \<times> json) list"

text \<open>
  A member is defined on an object, as an object literal and a spread do: a present key
  keeps its place and takes the new value. (JavaScript lists keys that are array indices
  first; the members are only ever read by key below, so their order plays no part.)
\<close>

fun obj_put :: "string \<Rightarrow> json \<Rightarrow> (string \<times> json) list \<Rightarrow> (string \<times> json) list" where
  "obj_put key v [] = [(key, v)]"
| "obj_put key v ((key', v') # ms) =
     (if key' = key then (key, v) # ms else (key', v') # obj_put key v ms)"

text \<open>
  \<open>acc[key] = v\<close> on a plain object, for an object \<open>v\<close>: the key \<open>__proto__\<close> reaches
  the setter of \<open>Object.prototype\<close>, which replaces the prototype and adds no member; every
  other key defines a member.
\<close>

definition obj_assign :: "string \<Rightarrow> json \<Rightarrow> (string \<times> json) list \<Rightarrow> (string \<times> json) list" where
  "obj_assign key v ms = (if key = ''__proto__'' then ms else obj_put key v ms)"

text \<open>\<open>{ ...base, ...ms }\<close>: the members of \<open>ms\<close> are put one by one.\<close>

definition spread :: "(string \<times> json) list \<Rightarrow> (string \<times> json) list \<Rightarrow> (string \<times> json) list" where
  "spread base ms = foldl (\<lambda>acc (key, v). obj_put key v acc) base ms"

text \<open>Lines 3--5.\<close>

definition componentsList :: "component list \<Rightarrow> json list" where
  "componentsList components =
     map (\<lambda>c. JObj [(''$ref'', JStr (''#/$defs/'' @ name c))]) components"

text \<open>The object built for one component at lines 8--20.\<close>

definition component_schema :: "component \<Rightarrow> json" where
  "component_schema c =
     JObj [(''type'', JStr ''object''),
           (''properties'',
              JObj (spread [(''name'', JObj [(''type'', JStr ''string''),
                                              (''enum'', JArr [JStr (name c)])])]
                      (parameters c))),
           (''required'', JArr (JStr ''name'' # map (\<lambda>p. JStr (fst p)) (parameters c))),
           (''additionalProperties'', JBool False)]"

text \<open>Lines 7--22: the \<open>reduce\<close> over the registry.\<close>

definition componentsDefinitions :: "component list \<Rightarrow> (string \<times> json) list" where
  "componentsDefinitions components =
     foldl (\<lambda>acc c. obj_assign (name c) (component_schema c) acc) [] components"

text \<open>The \<open>parameters\<close> member of the tool (lines 28--42).\<close>

definition tool_parameters :: "component list \<Rightarrow> json" where
  "tool_parameters components =
     JObj [(''type'', JStr ''object''),
           (''properties'',
              JObj [(''component'', JObj [(''anyOf'', JArr (componentsList components))])]),
           (''required'', JArr [JStr ''component'']),
           (''additionalProperties'', JBool False),
           (''$defs'',
              JObj (spread [(''component'', JObj [(''anyOf'', JArr (componentsList components))])]
                      (componentsDefinitions components)))]"

text \<open>Lines 24--45.\<close>

definition generateUITool :: "component list \<Rightarrow> json" where
  "generateUITool components =
     JObj [(''name'', JStr ''generate_ui''),
           (''description'',
              JStr ''Generate UI components dynamically to display relevant information.''),
           (''parameters'', tool_parameters components),
           (''strict'', JBool True)]"

subsection \<open>What a schema accepts\<close>

text \<open>
  The tool is handed to the model provider, which holds the model to the schema; no
  validator is part of the repository. The acceptance of a value by a schema is that of
  JSON Schema, for the keywords the builder emits and those usual in parameter fragments:
  \<open>$ref\<close> into \<open>$defs\<close>, \<open>anyOf\<close>, \<open>type\<close>, \<open>enum\<close>, \<open>required\<close>, \<open>properties\<close>,
  \<open>additionalProperties: false\<close> and \<open>items\<close>; other keywords constrain nothing. A
  reference is \<open>#/$defs/\<close> followed by a key free of the escape characters of JSON
  pointers and URI fragments; any other reference does not resolve, and nothing is valid
  against it. The first argument bounds the depth of the check, so that a cycle of
  references ends.
\<close>

definition plain_key :: "string \<Rightarrow> bool" where
  "plain_key s = list_all (\<lambda>c. c \<noteq> CHR ''/'' \<and> c \<noteq> CHR ''~'' \<and> c \<noteq> CHR ''%'') s"

definition resolve_ref :: "(string \<times> json) list \<Rightarrow> json \<Rightarrow> json option" where
  "resolve_ref defs r =
     (case r of
        JStr p \<Rightarrow>
          if take 8 p = ''#/$defs/'' \<and> plain_key (drop 8 p) then map_of defs (drop 8 p) else None
      | _ \<Rightarrow> None)"

fun has_type :: "string \<Rightarrow> json \<Rightarrow> bool" where
  "has_type ty (JStr s) = (ty = ''string'')"
| "has_type ty (JNum r) = (ty = ''number'' \<or> (ty = ''integer'' \<and> of_int \<lfloor>r\<rfloor> = r))"
| "has_type ty (JBool b) = (ty = ''boolean'')"
| "has_type ty (JObj ms) = (ty = ''object'')"
| "has_type ty (JArr xs) = (ty = ''array'')"
| "has_type ty JNull = (ty = ''null'')"

definition ok_type :: "(string \<times> json) list \<Rightarrow> json \<Rightarrow> bool" where
  "ok_type ms v =
     (case map_of ms ''type'' of
        None \<Rightarrow> True
      | Some (JStr ty) \<Rightarrow> has_type ty v
      | Some (JArr tys) \<Rightarrow> list_ex (\<lambda>t. case t of JStr ty \<Rightarrow> has_type ty v | _ \<Rightarrow> False) tys
      | Some _ \<Rightarrow> False)"

definition ok_enum :: "(string \<times> json) list \<Rightarrow> json \<Rightarrow> bool" where
  "ok_enum ms v =
     (case map_of ms ''enum'' of
        None \<Rightarrow> True
      | Some (JArr es) \<Rightarrow> v \<in> set es
      | Some _ \<Rightarrow> False)"

definition ok_required :: "(string \<times> json) list \<Rightarrow> json \<Rightarrow> bool" where
  "ok_required ms v =
     (case v of
        JObj mems \<Rightarrow>
          (case map_of ms ''required'' of
             Some (JArr rs) \<Rightarrow>
               list_all (\<lambda>r. case r of JStr key \<Rightarrow> key \<in> fst ` set mems | _ \<Rightarrow> False) rs
           | _ \<Rightarrow> True)
      | _ \<Rightarrow> True)"

definition ok_properties ::
  "(json \<Rightarrow> json \<Rightarrow> bool) \<Rightarrow> (string \<times> json) list \<Rightarrow> json \<Rightarrow> bool" where
  "ok_properties V ms v =
     (case v of
        JObj mems \<Rightarrow>
          (let props = (case map_of ms ''properties'' of Some (JObj ps) \<Rightarrow> ps | _ \<Rightarrow> [])
           in list_all
                (\<lambda>(key, x). case map_of props key of
                               Some s \<Rightarrow> V s x
                             | None \<Rightarrow> map_of ms ''additionalProperties'' \<noteq> Some (JBool False))
                mems)
      | _ \<Rightarrow> True)"

definition ok_items ::
  "(json \<Rightarrow> json \<Rightarrow> bool) \<Rightarrow> (string \<times> json) list \<Rightarrow> json \<Rightarrow> bool" where
  "ok_items V ms v =
     (case v of
        JArr xs \<Rightarrow> (case map_of ms ''items'' of Some s \<Rightarrow> list_all (V s) xs | None \<Rightarrow> True)
      | _ \<Rightarrow> True)"

definition ok_anyOf ::
  "(json \<Rightarrow> json \<Rightarrow> bool) \<Rightarrow> (string \<times> json) list \<Rightarrow> json \<Rightarrow> bool" where
  "ok_anyOf V ms v =
     (case map_of ms ''anyOf'' of
        None \<Rightarrow> True
      | Some (JArr alts) \<Rightarrow> list_ex (\<lambda>s. V s v) alts
      | Some _ \<Rightarrow> False)"

primrec valid :: "nat \<Rightarrow> (string \<times> json) list \<Rightarrow> json \<Rightarrow> json \<Rightarrow> bool" where
  "valid 0 defs sch v = False"
| "valid (Suc n) defs sch v =
     (case sch of
        JObj ms \<Rightarrow>
          (case map_of ms ''$ref'' of
             Some r \<Rightarrow> (case resolve_ref defs r of Some s \<Rightarrow> valid n defs s v | None \<Rightarrow> False)
           | None \<Rightarrow>
               ok_anyOf (valid n defs) ms v \<and> ok_type ms v \<and> ok_enum ms v \<and> ok_required ms v
               \<and> ok_properties (valid n defs) ms v \<and> ok_items (valid n defs) ms v)
      | JBool b \<Rightarrow> b
      | _ \<Rightarrow> False)"

text \<open>The \<open>$defs\<close> of the tool's parameters.\<close>

definition tool_defs :: "component list \<Rightarrow> (string \<times> json) list" where
  "tool_defs components =
     (case js_get (tool_parameters components) ''$defs'' of Some (JObj ds) \<Rightarrow> ds | _ \<Rightarrow> [])"

text \<open>
  The tool accepts the arguments \<open>{component: inst}\<close>, checked to depth \<open>n\<close>.
\<close>

definition accepts :: "nat \<Rightarrow> component list \<Rightarrow> json \<Rightarrow> bool" where
  "accepts n components inst =
     valid n (tool_defs components) (tool_parameters components) (JObj [(''component'', inst)])"

text \<open>
  A nested node, as a parameter fragment refers to one (\<open>{$ref: '#/$defs/component'}\<close>),
  is valid to depth \<open>n\<close>.
\<close>

definition accepts_nested :: "nat \<Rightarrow> component list \<Rightarrow> json \<Rightarrow> bool" where
  "accepts_nested n components inst =
     valid n (tool_defs components) (JObj [(''$ref'', JStr ''#/$defs/component'')]) inst"

text \<open>
  An instance of a component definition: an object whose members are the name, holding
  the component's name, and exactly the declared parameters, each value valid against
  its fragment to depth \<open>n\<close>.
\<close>

definition instance_of :: "nat \<Rightarrow> component list \<Rightarrow> component \<Rightarrow> json \<Rightarrow> bool" where
  "instance_of n components c inst =
     (case inst of
        JObj mems \<Rightarrow>
          fst ` set mems = insert ''name'' (fst ` set (parameters c))
          \<and> list_all
               (\<lambda>(key, x). if key = ''name'' then x = JStr (name c)
                            else (case map_of (parameters c) key of
                                    Some s \<Rightarrow> valid n (tool_defs components) s x
                                  | None \<Rightarrow> False))
               mems
      | _ \<Rightarrow> False)"

text \<open>
  The registries on which the builder keeps every definition apart: the names are unique
  and plain, none is \<open>__proto__\<close> or \<open>component\<close> (the key the builder itself puts into
  \<open>$defs\<close>), the parameters of a component are the members of an object, and none of them
  is called \<open>name\<close>.
\<close>

definition registry_ok :: "component list \<Rightarrow> bool" where
  "registry_ok components =
     (distinct (map name components)
      \<and> list_all (\<lambda>c. plain_key (name c) \<and> name c \<noteq> ''__proto__'' \<and> name c \<noteq> ''component''
                      \<and> distinct (map fst (parameters c))
                      \<and> ''name'' \<notin> fst ` set (parameters c)) components)"

text \<open>A registry of two components for worked examples, and an instance of the first.\<close>

definition sample_components :: "component list" where
  "sample_components =
     [\<lparr> name = ''header'', parameters = [(''content'', JObj [(''type'', JStr ''string'')])] \<rparr>,
      \<lparr> name = ''card'',
        parameters = [(''children'', JObj [(''type'', JStr ''array''),
                                          (''items'', JObj [(''$ref'', JStr ''#/$defs/component'')])])] \<rparr>]"

definition sample_header :: json where
  "sample_header = JObj [(''name'', JStr ''header''), (''content'', JStr ''Idee regalo'')]"

section \<open>Properties of the sort and of the slice\<close>

lemma set_js_insert: "set (js_insert cmp x xs) = insert x (set xs)"
  by (induction xs) auto

lemma set_js_sort: "set (js_sort cmp xs) = set xs"
  by (induction xs) (auto simp: set_js_insert)

lemma length_js_insert: "length (js_insert cmp x xs) = Suc (length xs)"
  by (induction xs) auto

lemma length_js_sort: "length (js_sort cmp xs) = length xs"
  by (induction xs) (auto simp: length_js_insert)

lemma mset_js_insert: "mset (js_insert cmp x xs) = add_mset x (mset xs)"
  by (induction xs) auto

lemma mset_js_sort: "mset (js_sort cmp xs) = mset xs"
  by (induction xs) (auto simp: mset_js_insert)

text \<open>
  A comparator that stands for a total preorder \<open>le\<close> on the elements of the list: the sort
  returns the list ordered by \<open>le\<close>.
\<close>

lemma sorted_wrt_js_insert:
  assumes "\<And>b. b \<in> set xs \<Longrightarrow> is_pos (cmp x b) \<Longrightarrow> le b x"
    and "\<And>b. b \<in> set xs \<Longrightarrow> \<not> is_pos (cmp x b) \<Longrightarrow> le x b"
    and "\<And>b c. b \<in> set xs \<Longrightarrow> c \<in> set xs \<Longrightarrow> le x b \<Longrightarrow> le b c \<Longrightarrow> le x c"
    and "sorted_wrt le xs"
  shows "sorted_wrt le (js_insert cmp x xs)"
  using assms
proof (induction xs)
  case Nil
  then show ?case by simp
next
  case (Cons y ys)
  show ?case
  proof (cases "is_pos (cmp x y)")
    case True
    have "sorted_wrt le (js_insert cmp x ys)"
      using Cons by auto
    moreover have "le y x" using Cons.prems(1) True by simp
    ultimately show ?thesis using True Cons.prems(4)
      by (auto simp: set_js_insert)
  next
    case False
    then have xy: "le x y" using Cons.prems(2) by simp
    have "\<forall>z\<in>set ys. le x z"
      using Cons.prems(3)[of y] Cons.prems(4) xy by auto
    then show ?thesis using False xy Cons.prems(4) by auto
  qed
qed

lemma sorted_wrt_js_sort:
  assumes tot: "\<forall>a\<in>set xs. \<forall>b\<in>set xs. is_pos (cmp a b) \<longrightarrow> le b a"
    and neg: "\<forall>a\<in>set xs. \<forall>b\<in>set xs. \<not> is_pos (cmp a b) \<longrightarrow> le a b"
    and tr: "\<forall>a\<in>set xs. \<forall>b\<in>set xs. \<forall>c\<in>set xs. le a b \<longrightarrow> le b c \<longrightarrow> le a c"
  shows "sorted_wrt le (js_sort cmp xs)"
  using assms
proof (induction xs)
  case Nil
  show ?case by simp
next
  case (Cons x xs)
  have IH: "sorted_wrt le (js_sort cmp xs)"
  proof (rule Cons.IH)
    show "\<forall>a\<in>set xs. \<forall>b\<in>set xs. is_pos (cmp a b) \<longrightarrow> le b a"
      using Cons.prems(1) by (meson list.set_intros(2))
    show "\<forall>a\<in>set xs. \<forall>b\<in>set xs. \<not> is_pos (cmp a b) \<longrightarrow> le a b"
      using Cons.prems(2) by (meson list.set_intros(2))
    show "\<forall>a\<in>set xs. \<forall>b\<in>set xs. \<forall>c\<in>set xs. le a b \<longrightarrow> le b c \<longrightarrow> le a c"
      using Cons.prems(3) by (meson list.set_intros(2))
  qed
  have "sorted_wrt le (js_insert cmp x (js_sort cmp xs))"
  proof (rule sorted_wrt_js_insert[where le = le])
    fix b assume "b \<in> set (js_sort cmp xs)" "is_pos (cmp x b)"
    then show "le b x" using Cons.prems(1) unfolding set_js_sort
      by (meson list.set_intros)
  next
    fix b assume "b \<in> set (js_sort cmp xs)" "\<not> is_pos (cmp x b)"
    then show "le x b" using Cons.prems(2) unfolding set_js_sort
      by (meson list.set_intros)
  next
    fix b c assume "b \<in> set (js_sort cmp xs)" "c \<in> set (js_sort cmp xs)" "le x b" "le b c"
    then show "le x c" using Cons.prems(3) unfolding set_js_sort
      by (meson list.set_intros)
  next
    show "sorted_wrt le (js_sort cmp xs)" by (rule IH)
  qed
  then show ?case by simp
qed

lemma sorted_wrt_take: "sorted_wrt P xs \<Longrightarrow> sorted_wrt P (take n xs)"
  using sorted_wrt_append[of P "take n xs" "drop n xs"] by simp

lemma sorted_wrt_js_slice0: "sorted_wrt P xs \<Longrightarrow> sorted_wrt P (js_slice0 xs e)"
  by (simp add: js_slice0_def Let_def sorted_wrt_take)

lemma length_js_slice0_le: "0 \<le> e \<Longrightarrow> of_nat (length (js_slice0 xs e)) \<le> e"
proof -
  assume e: "0 \<le> e"
  have "length (js_slice0 xs e) \<le> nat \<lfloor>e\<rfloor>"
    using e by (simp add: js_slice0_def Let_def js_trunc_def)
  then have "(of_nat (length (js_slice0 xs e)) :: rat) \<le> of_nat (nat \<lfloor>e\<rfloor>)"
    using of_nat_le_iff by blast
  also have "\<dots> = of_int \<lfloor>e\<rfloor>" using e by simp
  also have "\<dots> \<le> e" by simp
  finally show ?thesis .
qed

lemma js_slice0_drop2: "js_slice0 (xs @ [a, b]) (- 2) = xs"
  by (simp add: js_slice0_def Let_def js_trunc_def)

lemma js_insert_map:
  assumes "\<And>a b. cmp (f a) (f b) = cmp a b"
  shows "js_insert cmp (f x) (map f xs) = map f (js_insert cmp x xs)"
  by (induction xs) (simp_all add: assms)

lemma js_sort_map:
  assumes "\<And>a b. cmp (f a) (f b) = cmp a b"
  shows "js_sort cmp (map f xs) = map f (js_sort cmp xs)"
  by (induction xs) (simp_all add: js_insert_map[of cmp f, OF assms])

lemma js_slice0_map: "js_slice0 (map f xs) e = map f (js_slice0 xs e)"
  by (simp add: js_slice0_def Let_def take_map)

section \<open>The comparator of the route\<close>

lemma num_le_total: "a \<noteq> NaN \<Longrightarrow> b \<noteq> NaN \<Longrightarrow> num_le a b \<or> num_le b a"
  by (cases a; cases b) auto

lemma num_le_trans: "num_le a b \<Longrightarrow> num_le b c \<Longrightarrow> num_le a c"
  by (cases a; cases b; cases c) auto

lemma num_le_antisym: "num_le a b \<Longrightarrow> num_le b a \<Longrightarrow> a = b"
  by (cases a; cases b) auto

lemma num_le_refl: "a \<noteq> NaN \<Longrightarrow> num_le a a"
  by (cases a) auto

lemma is_pos_sub: "a \<noteq> NaN \<Longrightarrow> b \<noteq> NaN \<Longrightarrow> is_pos (js_sub a b) = (\<not> num_le a b)"
  by (cases a; cases b) (auto simp: is_pos_def)

lemma is_pos_asc_sub:
  "a \<noteq> NaN \<Longrightarrow> b \<noteq> NaN \<Longrightarrow> a \<noteq> b \<Longrightarrow>
   is_pos (js_mul (Fin 1) (js_sub a b)) = (\<not> num_le a b)"
  by (cases a; cases b) (auto simp: is_pos_def js_mul_def is_neg_def)

lemma is_pos_desc_sub:
  "a \<noteq> NaN \<Longrightarrow> b \<noteq> NaN \<Longrightarrow> a \<noteq> b \<Longrightarrow>
   is_pos (js_mul (Fin (- 1)) (js_sub a b)) = (\<not> num_le b a)"
  by (cases a; cases b) (auto simp: is_pos_def js_mul_def is_neg_def)

lemma compare_items_pos:
  assumes "price_key a \<noteq> NaN" "price_key b \<noteq> NaN" "score_key a \<noteq> NaN" "score_key b \<noteq> NaN"
  shows "is_pos (compare_items (dir_of ord) a b) = (\<not> item_le (ord = ''price_asc'') a b)"
proof (cases "price_key a = price_key b")
  case True
  then show ?thesis using assms
    by (simp add: compare_items_def Let_def js_eq_def item_le_def num_lt_def is_pos_sub)
next
  case False
  show ?thesis
  proof (cases "ord = ''price_asc''")
    case asc: True
    have "is_pos (compare_items (dir_of ord) a b) = (\<not> num_le (price_key a) (price_key b))"
      using False assms asc
      by (simp add: compare_items_def Let_def js_eq_def dir_of_def is_pos_asc_sub)
    moreover have "item_le True a b = num_le (price_key a) (price_key b)"
      using False by (simp add: item_le_def num_lt_def)
    ultimately show ?thesis using asc by simp
  next
    case desc: False
    have "is_pos (compare_items (dir_of ord) a b) = (\<not> num_le (price_key b) (price_key a))"
      using False assms desc
      by (simp add: compare_items_def Let_def js_eq_def dir_of_def is_pos_desc_sub)
    moreover have "item_le False a b = num_le (price_key b) (price_key a)"
      using False by (auto simp add: item_le_def num_lt_def)
    ultimately show ?thesis using desc by simp
  qed
qed

lemma item_le_total:
  assumes "price_key a \<noteq> NaN" "price_key b \<noteq> NaN" "score_key a \<noteq> NaN" "score_key b \<noteq> NaN"
  shows "item_le asc a b \<or> item_le asc b a"
  using assms num_le_total[of "price_key a" "price_key b"]
    num_le_total[of "score_key a" "score_key b"]
  unfolding item_le_def num_lt_def by (cases asc) auto

lemma item_le_trans:
  assumes "item_le asc a b" "item_le asc b c"
  shows "item_le asc a c"
proof (cases asc)
  case True
  then show ?thesis using assms unfolding item_le_def num_lt_def
    by (metis num_le_antisym num_le_trans)
next
  case False
  then show ?thesis using assms unfolding item_le_def num_lt_def
    by (metis num_le_antisym num_le_trans)
qed

lemma numeric_keys: "numeric a \<Longrightarrow> price_key a \<noteq> NaN \<and> score_key a \<noteq> NaN"
  by (auto simp: numeric_def price_key_def score_key_def split: option.splits)

lemma sorted_items:
  assumes "\<forall>a\<in>set its. numeric a"
  shows "sorted_wrt (item_le (ord = ''price_asc'')) (js_sort (compare_items (dir_of ord)) its)"
proof (rule sorted_wrt_js_sort)
  show "\<forall>a\<in>set its. \<forall>b\<in>set its. is_pos (compare_items (dir_of ord) a b) \<longrightarrow> item_le (ord = ''price_asc'') b a"
  proof (intro ballI impI)
    fix a b assume ab: "a \<in> set its" "b \<in> set its" and p: "is_pos (compare_items (dir_of ord) a b)"
    have k: "price_key a \<noteq> NaN" "price_key b \<noteq> NaN" "score_key a \<noteq> NaN" "score_key b \<noteq> NaN"
      using ab assms numeric_keys by auto
    have "\<not> item_le (ord = ''price_asc'') a b"
      using p compare_items_pos[OF k, of ord] by simp
    then show "item_le (ord = ''price_asc'') b a"
      using item_le_total[OF k, of "ord = ''price_asc''"] by simp
  qed
  show "\<forall>a\<in>set its. \<forall>b\<in>set its. \<not> is_pos (compare_items (dir_of ord) a b) \<longrightarrow> item_le (ord = ''price_asc'') a b"
  proof (intro ballI impI)
    fix a b assume ab: "a \<in> set its" "b \<in> set its" and p: "\<not> is_pos (compare_items (dir_of ord) a b)"
    have k: "price_key a \<noteq> NaN" "price_key b \<noteq> NaN" "score_key a \<noteq> NaN" "score_key b \<noteq> NaN"
      using ab assms numeric_keys by auto
    show "item_le (ord = ''price_asc'') a b"
      using p compare_items_pos[OF k, of ord] by simp
  qed
  show "\<forall>a\<in>set its. \<forall>b\<in>set its. \<forall>c\<in>set its.
      item_le (ord = ''price_asc'') a b \<longrightarrow> item_le (ord = ''price_asc'') b c \<longrightarrow> item_le (ord = ''price_asc'') a c"
    by (intro ballI impI) (rule item_le_trans)
qed

lemma item_le_keys:
  assumes "numeric a" "item_le asc a b"
  shows "(if asc then num_le (price_key a) (price_key b) else num_le (price_key b) (price_key a))
         \<and> (price_key a = price_key b \<longrightarrow> num_le (score_key a) (score_key b))"
proof -
  have "num_le (price_key a) (price_key a)"
    using assms(1) numeric_keys num_le_refl by simp
  then show ?thesis
    using assms(2) unfolding item_le_def num_lt_def by (cases asc) auto
qed

lemma keys_strip: "price_key (strip a) = price_key a" "score_key (strip a) = score_key a"
  by (simp_all add: strip_def price_key_def score_key_def)

lemma compare_items_strip: "compare_items d (strip a) (strip b) = compare_items d a b"
  by (simp add: compare_items_def keys_strip Let_def)

lemma final_order_strip:
  "map strip (final_order ord kl its) = final_order ord kl (map strip its)"
  unfolding final_order_def
  by (simp add: js_slice0_map js_sort_map[of "compare_items (dir_of ord)" strip, OF compare_items_strip])

section \<open>The run of the route\<close>

lemma items_POST:
  "items (fst (POST h req)) =
     (case fst (query_index h req) of
        Inl early \<Rightarrow> items early
      | Inr raw \<Rightarrow>
          final_order (resolve_order (sort_by req)) (kLimit_req req)
            (fst (build_items h (case include_details req of Some b \<Rightarrow> b | None \<Rightarrow> True)
                    (snd (query_index h req)) raw)))"
  by (cases "query_index h req")
     (auto simp: POST_def Let_def split: sum.splits prod.splits)

lemma snd_POST:
  "snd (POST h req) =
     (case fst (query_index h req) of
        Inl early \<Rightarrow> snd (query_index h req)
      | Inr raw \<Rightarrow>
          snd (build_items h (case include_details req of Some b \<Rightarrow> b | None \<Rightarrow> True)
                    (snd (query_index h req)) raw))"
  by (cases "query_index h req")
     (auto simp: POST_def Let_def split: sum.splits prod.splits)

lemma items_early: "fst (query_index h req) = Inl early \<Longrightarrow> items early = []"
  by (auto simp: query_index_def Let_def failure_def
      split: option.splits json.splits if_splits sum.splits)

lemma status_POST:
  "fst (query_index h req) = Inr raw \<Longrightarrow> status (fst (POST h req)) = 200"
  by (cases "query_index h req") (auto simp: POST_def Let_def split: prod.splits)




lemma ft_search_calls_append:
  "ft_search_calls (t @ u) = ft_search_calls t @ ft_search_calls u"
  by (induction t rule: ft_search_calls.induct) auto

lemma add_details_trace:
  "ft_search_calls (snd (add_details h incl t row)) = ft_search_calls t"
  by (auto simp: add_details_def Let_def ft_search_calls_append
      split: option.splits sum.splits)

lemma snd_build_items_Cons:
  "snd (build_items h incl t (d # rest)) =
     snd (build_items h incl (snd (add_details h incl t (row_of h d))) rest)"
  by (simp add: Let_def split: prod.splits)

lemma fst_build_items_Cons:
  "fst (build_items h incl t (d # rest)) =
     fst (add_details h incl t (row_of h d))
       # fst (build_items h incl (snd (add_details h incl t (row_of h d))) rest)"
  by (simp add: Let_def split: prod.splits)

declare build_items.simps(2) [simp del]

lemma build_items_trace:
  "ft_search_calls (snd (build_items h incl t raw)) = ft_search_calls t"
proof (induction raw arbitrary: t)
  case Nil
  show ?case by simp
next
  case (Cons d rest)
  show ?case
    unfolding snd_build_items_Cons Cons.IH add_details_trace ..
qed

lemma ft_search_calls_POST:
  "ft_search_calls (snd (POST h req)) = ft_search_calls (snd (query_index h req))"
  by (simp add: snd_POST build_items_trace split: sum.splits)

lemma argsNoDialect_args:
  "argsWithDialect h fe kq vec = argsNoDialect (argsWithDialect h fe kq vec) @ [S ''DIALECT'', S ''2'']"
proof -
  obtain xs where x: "argsWithDialect h fe kq vec = xs @ [S ''DIALECT'', S ''2'']"
    unfolding argsWithDialect_def by (metis append.assoc)
  show ?thesis unfolding argsNoDialect_def x js_slice0_drop2 ..
qed

lemma args_head:
  "\<exists>as. argsWithDialect h fe kq vec = S ''FT.SEARCH'' # as"
  "\<exists>as. argsNoDialect (argsWithDialect h fe kq vec) = S ''FT.SEARCH'' # as"
  by (simp_all add: argsWithDialect_def argsNoDialect_def js_slice0_def Let_def js_trunc_def returnFields_def)

lemma add_details_strip: "strip (fst (add_details h incl t row)) = strip row"
  by (auto simp: add_details_def Let_def strip_def split: option.splits sum.splits)

lemma add_details_failed:
  "lookup_failed h t row \<Longrightarrow> fst (add_details h incl t row) = row"
  by (auto simp: add_details_def lookup_failed_def Let_def split: option.splits sum.splits)

lemma length_build_items: "length (fst (build_items h incl t raw)) = length raw"
  by (induction raw arbitrary: t) (simp_all add: fst_build_items_Cons)

lemma strip_build_items:
  "map strip (fst (build_items h incl t raw)) = map (\<lambda>d. strip (row_of h d)) raw"
  by (induction raw arbitrary: t) (simp_all add: fst_build_items_Cons add_details_strip)

lemma strip_row_of: "strip (row_of h d) = row_of h d"
  by (cases d) (simp add: strip_def mk_row_def)

lemma nth_build_items:
  "i < length raw \<Longrightarrow>
   fst (build_items h incl t raw) ! i =
     fst (add_details h incl (snd (build_items h incl t (take i raw))) (row_of h (raw ! i)))"
proof (induction raw arbitrary: t i)
  case Nil
  then show ?case by simp
next
  case (Cons d rest)
  show ?case
  proof (cases i)
    case 0
    then show ?thesis by (simp add: fst_build_items_Cons)
  next
    case (Suc j)
    then have "j < length rest" using Cons.prems by simp
    from Cons.IH[OF this] show ?thesis using Suc
      by (simp add: fst_build_items_Cons snd_build_items_Cons)
  qed
qed

section \<open>The generated schema\<close>

lemma map_of_obj_put: "map_of (obj_put key v ms) = (map_of ms)(key \<mapsto> v)"
  by (induction ms) (auto simp: fun_eq_iff)

lemma fst_set_obj_put: "fst ` set (obj_put key v ms) = insert key (fst ` set ms)"
proof -
  have "dom (map_of (obj_put key v ms)) = insert key (dom (map_of ms))"
    by (simp add: map_of_obj_put)
  then show ?thesis by (simp add: dom_map_of_conv_image_fst)
qed

lemma distinct_obj_put:
  "distinct (map fst ms) \<Longrightarrow> distinct (map fst (obj_put key v ms))"
proof (induction ms)
  case Nil
  show ?case by simp
next
  case (Cons m ms)
  then show ?case
    using fst_set_obj_put[of key v ms] by (cases m) (auto simp: image_iff)
qed

lemma map_of_foldl_put:
  "map_of (foldl (\<lambda>acc p. obj_put (f p) (g p) acc) base ps) =
     map_of base ++ map_of (rev (map (\<lambda>p. (f p, g p)) ps))"
proof (induction ps arbitrary: base)
  case Nil
  show ?case by simp
next
  case (Cons p ps)
  show ?case
    by (simp add: Cons.IH map_of_obj_put) (auto simp: map_add_def fun_eq_iff split: option.splits)
qed

lemma distinct_foldl_put:
  "distinct (map fst base) \<Longrightarrow>
   distinct (map fst (foldl (\<lambda>acc p. obj_put (f p) (g p) acc) base ps))"
  by (induction ps arbitrary: base) (simp_all add: distinct_obj_put)

lemma map_of_rev_distinct:
  "distinct (map fst ms) \<Longrightarrow> map_of (rev ms) = map_of ms"
  by (rule map_of_inject_set[THEN iffD2]) (simp_all add: rev_map[symmetric])

lemma spread_foldl: "spread base ms = foldl (\<lambda>acc p. obj_put (fst p) (snd p) acc) base ms"
  unfolding spread_def by (rule arg_cong[of _ _ "\<lambda>f. foldl f base ms"]) (simp add: fun_eq_iff)

lemma map_of_spread:
  "distinct (map fst ms) \<Longrightarrow> map_of (spread base ms) = map_of base ++ map_of ms"
  using map_of_foldl_put[of fst snd base ms] map_of_rev_distinct[of ms]
  by (simp add: spread_foldl)

lemma componentsDefinitions_put:
  assumes "\<forall>c\<in>set cs. name c \<noteq> ''__proto__''"
  shows "componentsDefinitions cs =
           foldl (\<lambda>acc c. obj_put (name c) (component_schema c) acc) [] cs"
  unfolding componentsDefinitions_def
  by (rule foldl_cong) (use assms in \<open>simp_all add: obj_assign_def\<close>)

lemma distinct_componentsDefinitions:
  "\<forall>c\<in>set cs. name c \<noteq> ''__proto__'' \<Longrightarrow> distinct (map fst (componentsDefinitions cs))"
  unfolding componentsDefinitions_put by (rule distinct_foldl_put) simp

lemma map_of_named:
  "distinct (map f cs) \<Longrightarrow> c \<in> set cs \<Longrightarrow> map_of (map (\<lambda>c. (f c, g c)) cs) (f c) = Some (g c)"
  by (induction cs) (auto simp: image_iff)

lemma map_of_componentsDefinitions_eq:
  assumes "distinct (map name cs)" and "\<forall>c\<in>set cs. name c \<noteq> ''__proto__''"
  shows "map_of (componentsDefinitions cs) = map_of (map (\<lambda>c. (name c, component_schema c)) cs)"
proof -
  have d: "distinct (map fst (map (\<lambda>c. (name c, component_schema c)) cs))"
    using assms(1) by (simp add: comp_def)
  have "map_of (componentsDefinitions cs) =
          map_of (rev (map (\<lambda>c. (name c, component_schema c)) cs))"
    unfolding componentsDefinitions_put[OF assms(2)]
    using map_of_foldl_put[of name component_schema "[]" cs] by simp
  also have "\<dots> = map_of (map (\<lambda>c. (name c, component_schema c)) cs)"
    by (rule map_of_rev_distinct[OF d])
  finally show ?thesis .
qed

lemma tool_defs_eq:
  "tool_defs cs =
     spread [(''component'', JObj [(''anyOf'', JArr (componentsList cs))])]
       (componentsDefinitions cs)"
  by (simp add: tool_defs_def tool_parameters_def)

lemma map_of_tool_defs:
  assumes "distinct (map name cs)" and "\<forall>c\<in>set cs. name c \<noteq> ''__proto__''" and "c \<in> set cs"
  shows "map_of (tool_defs cs) (name c) = Some (component_schema c)"
  unfolding tool_defs_eq
  by (simp add: map_of_spread[OF distinct_componentsDefinitions[OF assms(2)]]
      map_of_componentsDefinitions_eq[OF assms(1,2)] map_of_named[OF assms(1,3)] map_add_def)

lemma map_of_tool_defs_component:
  assumes "distinct (map name cs)" and "\<forall>c\<in>set cs. name c \<noteq> ''__proto__''"
    and "\<forall>c\<in>set cs. name c \<noteq> ''component''"
  shows "map_of (tool_defs cs) ''component'' = Some (JObj [(''anyOf'', JArr (componentsList cs))])"
proof -
  have "map_of (map (\<lambda>c. (name c, component_schema c)) cs) ''component'' = None"
    using assms(3) by (auto simp: map_of_eq_None_iff image_iff)
  then show ?thesis
    unfolding tool_defs_eq
    by (simp add: map_of_spread[OF distinct_componentsDefinitions[OF assms(2)]]
        map_of_componentsDefinitions_eq[OF assms(1,2)] map_add_def)
qed

lemma accepts_Suc:
  "accepts (Suc m) cs inst =
     valid m (tool_defs cs) (JObj [(''anyOf'', JArr (componentsList cs))]) inst"
  by (simp add: accepts_def tool_parameters_def ok_anyOf_def ok_type_def ok_enum_def
      ok_required_def ok_properties_def ok_items_def)

lemma valid_anyOf:
  "valid (Suc m) defs (JObj [(''anyOf'', JArr alts)]) v = list_ex (\<lambda>s. valid m defs s v) alts"
  by (cases v)
     (simp_all add: ok_anyOf_def ok_type_def ok_enum_def ok_required_def ok_properties_def
        ok_items_def list_all_iff)

lemma resolve_name:
  "plain_key nm \<Longrightarrow> resolve_ref defs (JStr (''#/$defs/'' @ nm)) = map_of defs nm"
  by (simp add: resolve_ref_def)

lemma valid_ref:
  assumes "distinct (map name cs)" and "\<forall>c\<in>set cs. name c \<noteq> ''__proto__''"
    and "c \<in> set cs" and "plain_key (name c)"
  shows "valid (Suc m) (tool_defs cs) (JObj [(''$ref'', JStr (''#/$defs/'' @ name c))]) v =
         valid m (tool_defs cs) (component_schema c) v"
  using resolve_name[OF assms(4), of "tool_defs cs"] map_of_tool_defs[OF assms(1,2,3)]
  by simp

lemma valid_name_schema:
  "valid (Suc m) defs (JObj [(''type'', JStr ''string''), (''enum'', JArr [JStr nm])]) x =
     (x = JStr nm)"
  by (cases x)
     (auto simp: ok_anyOf_def ok_type_def ok_enum_def ok_required_def ok_properties_def
        ok_items_def)

declare valid.simps(2) [simp del]

lemma map_of_properties:
  assumes "distinct (map fst ps)" and "''name'' \<notin> fst ` set ps"
  shows "map_of (spread [(''name'', ns)] ps) key =
           (if key = ''name'' then Some ns else map_of ps key)"
proof -
  have "map_of ps ''name'' = None"
    using assms(2) by (simp add: map_of_eq_None_iff)
  then show ?thesis
    by (auto simp: map_of_spread[OF assms(1)] map_add_def split: option.splits)
qed

lemma valid_component_schema:
  assumes "distinct (map fst (parameters c))" and "''name'' \<notin> fst ` set (parameters c)"
  shows "valid (Suc (Suc m)) defs (component_schema c) inst =
     (case inst of
        JObj mems \<Rightarrow>
          insert ''name'' (fst ` set (parameters c)) \<subseteq> fst ` set mems
          \<and> list_all
               (\<lambda>(key, x). if key = ''name'' then x = JStr (name c)
                            else (case map_of (parameters c) key of
                                    Some s \<Rightarrow> valid (Suc m) defs s x
                                  | None \<Rightarrow> False))
               mems
      | _ \<Rightarrow> False)"
proof (cases inst)
  case (JObj mems)
  have req: "ok_required
               [(''type'', JStr ''object''),
                (''properties'',
                  JObj (spread [(''name'', JObj [(''type'', JStr ''string''),
                                                  (''enum'', JArr [JStr (name c)])])]
                          (parameters c))),
                (''required'', JArr (JStr ''name'' # map (\<lambda>p. JStr (fst p)) (parameters c))),
                (''additionalProperties'', JBool False)] (JObj mems)
             = (insert ''name'' (fst ` set (parameters c)) \<subseteq> fst ` set mems)"
    by (auto simp: ok_required_def list_all_iff)
  let ?props = "spread [(''name'', JObj [(''type'', JStr ''string''),
                                        (''enum'', JArr [JStr (name c)])])] (parameters c)"
  let ?ms = "[(''type'', JStr ''object''),
                (''properties'', JObj ?props),
                (''required'', JArr (JStr ''name'' # map (\<lambda>p. JStr (fst p)) (parameters c))),
                (''additionalProperties'', JBool False)]"
  have ap: "map_of ?ms ''additionalProperties'' = Some (JBool False)"
    and pr: "map_of ?ms ''properties'' = Some (JObj ?props)"
    by simp_all
  have pt: "(case map_of ?props key of
               Some s \<Rightarrow> valid (Suc m) defs s x
             | None \<Rightarrow> map_of ?ms ''additionalProperties'' \<noteq> Some (JBool False))
            = (if key = ''name'' then x = JStr (name c)
               else (case map_of (parameters c) key of
                       Some s \<Rightarrow> valid (Suc m) defs s x
                     | None \<Rightarrow> False))" for key x
    unfolding ap
    by (simp add: map_of_properties[OF assms] valid_name_schema split: option.splits)
  have props: "ok_properties (valid (Suc m) defs) ?ms (JObj mems)
             = list_all
               (\<lambda>(key, x). if key = ''name'' then x = JStr (name c)
                            else (case map_of (parameters c) key of
                                    Some s \<Rightarrow> valid (Suc m) defs s x
                                  | None \<Rightarrow> False))
               mems"
    unfolding ok_properties_def json.case pr option.case Let_def pt ..
  show ?thesis
    unfolding JObj component_schema_def valid.simps(2)[of "Suc m"] json.case
    using req props
    by (simp add: ok_anyOf_def ok_type_def ok_enum_def ok_items_def)
qed (simp_all add: component_schema_def valid.simps(2) ok_type_def)

lemma instance_of_iff:
  "instance_of n cs c inst =
     (case inst of
        JObj mems \<Rightarrow>
          insert ''name'' (fst ` set (parameters c)) \<subseteq> fst ` set mems
          \<and> list_all
               (\<lambda>(key, x). if key = ''name'' then x = JStr (name c)
                            else (case map_of (parameters c) key of
                                    Some s \<Rightarrow> valid n (tool_defs cs) s x
                                  | None \<Rightarrow> False))
               mems
      | _ \<Rightarrow> False)"
proof (cases inst)
  case (JObj mems)
  let ?P = "\<lambda>(key, x). if key = ''name'' then x = JStr (name c)
                            else (case map_of (parameters c) key of
                                    Some s \<Rightarrow> valid n (tool_defs cs) s x
                                  | None \<Rightarrow> False)"
  have sub: "fst ` set mems \<subseteq> insert ''name'' (fst ` set (parameters c))"
    if "list_all ?P mems"
  proof
    fix key assume "key \<in> fst ` set mems"
    then obtain x where m: "(key, x) \<in> set mems" by auto
    have px: "?P (key, x)" using that m unfolding list_all_iff by blast
    show "key \<in> insert ''name'' (fst ` set (parameters c))"
    proof (cases "key = ''name''")
      case True
      then show ?thesis by simp
    next
      case False
      then have "map_of (parameters c) key \<noteq> None"
        using px by (auto split: option.splits)
      then show ?thesis by (auto simp: map_of_eq_None_iff)
    qed
  qed
  show ?thesis unfolding JObj instance_of_def json.case using sub by blast
qed (simp_all add: instance_of_def)

lemma valid_components:
  assumes "registry_ok cs"
  shows "valid (Suc (Suc (Suc (Suc m)))) (tool_defs cs)
           (JObj [(''anyOf'', JArr (componentsList cs))]) inst
         = (\<exists>c\<in>set cs. instance_of (Suc m) cs c inst)"
proof -
  have d: "distinct (map name cs)"
    and np: "\<forall>c\<in>set cs. name c \<noteq> ''__proto__''"
    and p: "\<And>c. c \<in> set cs \<Longrightarrow> plain_key (name c)"
    and q: "\<And>c. c \<in> set cs \<Longrightarrow> distinct (map fst (parameters c))"
    and r: "\<And>c. c \<in> set cs \<Longrightarrow> ''name'' \<notin> fst ` set (parameters c)"
    using assms by (auto simp: registry_ok_def list_all_iff)
  have "valid (Suc (Suc (Suc (Suc m)))) (tool_defs cs)
           (JObj [(''anyOf'', JArr (componentsList cs))]) inst =
          (\<exists>c\<in>set cs. valid (Suc (Suc (Suc m))) (tool_defs cs)
                  (JObj [(''$ref'', JStr (''#/$defs/'' @ name c))]) inst)"
    unfolding valid_anyOf componentsList_def list_ex_iff by (simp only: set_map bex_simps)
  also have "\<dots> = (\<exists>c\<in>set cs. valid (Suc (Suc m)) (tool_defs cs) (component_schema c) inst)"
    using valid_ref[OF d np _ p] by blast
  also have "\<dots> = (\<exists>c\<in>set cs. instance_of (Suc m) cs c inst)"
    using valid_component_schema[OF q r, of _ m "tool_defs cs" inst]
    unfolding instance_of_iff by blast
  finally show ?thesis .
qed

lemma accepts_iff:
  assumes "registry_ok cs"
  shows "accepts (Suc m + 4) cs inst = (\<exists>c\<in>set cs. instance_of (Suc m) cs c inst)"
proof -
  have s: "Suc m + 4 = Suc (Suc (Suc (Suc (Suc m))))" by simp
  show ?thesis unfolding s accepts_Suc by (rule valid_components[OF assms])
qed

lemma accepts_nested_iff:
  assumes "registry_ok cs"
  shows "accepts_nested (Suc m + 4) cs inst = (\<exists>c\<in>set cs. instance_of (Suc m) cs c inst)"
proof -
  have d: "distinct (map name cs)"
    and np: "\<forall>c\<in>set cs. name c \<noteq> ''__proto__''"
    and nc: "\<forall>c\<in>set cs. name c \<noteq> ''component''"
    using assms by (auto simp: registry_ok_def list_all_iff)
  have s: "Suc m + 4 = Suc (Suc (Suc (Suc (Suc m))))" by simp
  have "resolve_ref (tool_defs cs) (JStr ''#/$defs/component'')
          = Some (JObj [(''anyOf'', JArr (componentsList cs))])"
    using map_of_tool_defs_component[OF d np nc] by (simp add: resolve_ref_def plain_key_def)
  then have "accepts_nested (Suc m + 4) cs inst =
               valid (Suc (Suc (Suc (Suc m)))) (tool_defs cs)
                 (JObj [(''anyOf'', JArr (componentsList cs))]) inst"
    unfolding s accepts_nested_def by (simp add: valid.simps(2))
  then show ?thesis by (simp only: valid_components[OF assms])
qed

lemma instance_name:
  "instance_of n cs c (JObj mems) \<Longrightarrow> (''name'', x) \<in> set mems \<Longrightarrow> x = JStr (name c)"
  by (auto simp: instance_of_def list_all_iff)

lemma instance_keys:
  "instance_of n cs c (JObj mems) \<Longrightarrow> fst ` set mems = insert ''name'' (fst ` set (parameters c))"
  by (simp add: instance_of_def)

section \<open>The claims\<close>

subsection \<open>The cap on the number of items\<close>

text \<open>
  C1, as amended. The route computes its cap as \<open>Math.min(5, Number(k) || 5)\<close>, so a
  requested \<open>k\<close> of \<open>0\<close> counts as not given. For every request with a requested
  \<open>k \<ge> 0\<close> (8 when absent) and every host, the number of returned items is at most
  \<open>min(5, k)\<close> when \<open>k\<close> is not \<open>0\<close>, and at most 5 when it is.
\<close>

theorem item_count_cap:
  assumes "kk = (case k req of Some n \<Rightarrow> n | None \<Rightarrow> 8)" and "0 \<le> kk"
  shows "of_nat (length (items (fst (POST h req)))) \<le> (if kk = 0 then 5 else min 5 kk)"
proof (cases "fst (query_index h req)")
  case (Inl early)
  then show ?thesis using assms items_early[OF Inl] by (simp add: items_POST)
next
  case (Inr raw)
  have kl: "kLimit_req req = (if kk = 0 then 5 else min 5 kk)"
    using assms by (simp add: kLimit_req_def kLimit_of_def)
  then have "0 \<le> kLimit_req req" using assms by auto
  then have "of_nat (length (items (fst (POST h req)))) \<le> kLimit_req req"
    unfolding items_POST Inr final_order_def sum.case by (rule length_js_slice0_le)
  then show ?thesis unfolding kl .
qed

text \<open>With \<open>k = 8\<close> and six documents from the index, five items are returned.\<close>

theorem item_count_cap_witness:
  "(case k ((sample_request ''agenda gatti'')\<lparr>k := Some 8\<rparr>) of Some n \<Rightarrow> n | None \<Rightarrow> 8) = 8
   \<and> length docs6 = 6
   \<and> of_nat (length (items (fst (POST (sample_host docs6)
          ((sample_request ''agenda gatti'')\<lparr>k := Some 8\<rparr>))))) \<le> min 5 (8 :: rat)"
proof -
  have h: "(8 :: rat) = (case k ((sample_request ''agenda gatti'')\<lparr>k := Some 8\<rparr>) of Some n \<Rightarrow> n | None \<Rightarrow> 8)"
    by (simp add: sample_request_def)
  have l: "length docs6 = 6" by (simp add: docs6_def)
  show ?thesis
    using item_count_cap[OF h, of "sample_host docs6"] h l by simp
qed

text \<open>
  C1 as stated fails at \<open>k = 0\<close>: the index returns two documents and both are returned,
  more than \<open>min(5, 0) = 0\<close>.
\<close>

theorem item_count_cap_counterexample:
  "\<not> of_nat (length (items (fst (POST (sample_host docsAB)
          ((sample_request ''agenda gatti'')\<lparr>k := Some 0\<rparr>))))) \<le> min 5 (0 :: rat)"
proof -
  have "length (items (fst (POST (sample_host docsAB)
          ((sample_request ''agenda gatti'')\<lparr>k := Some 0\<rparr>)))) = 2"
    by code_simp
  then show ?thesis by simp
qed

(* C2 *)

subsection \<open>The order of the items\<close>

text \<open>
  C2: with \<open>sort_by\<close> set to \<open>relevance\<close>, or absent, the returned order should be the
  order of the index reply. The route resolves every \<open>sort_by\<close> other than \<open>price_desc\<close>
  to \<open>price_asc\<close> and sorts by price: the index returns \<open>A\<close> (price 20) before \<open>B\<close>
  (price 10), and the route returns \<open>B\<close> before \<open>A\<close>.
\<close>

theorem relevance_request_sorted_by_price:
  "map (\<lambda>d. code (row_of (sample_host docsAB) d)) docsAB = [Some ''A'', Some ''B'']
   \<and> map code (items (fst (POST (sample_host docsAB)
         ((sample_request ''agenda gatti'')\<lparr>sort_by := Some ''relevance''\<rparr>)))) = [Some ''B'', Some ''A'']
   \<and> map code (items (fst (POST (sample_host docsAB) (sample_request ''agenda gatti'')))) = [Some ''B'', Some ''A'']"
  by code_simp

(* C3 *)

text \<open>
  C3, as amended. For every list of rows whose prices and scores are numbers other than
  \<open>NaN\<close>, or missing, a missing price counting as \<open>+Infinity\<close> and a missing score as
  \<open>0\<close>: the returned price keys never decrease under \<open>price_asc\<close> and never increase under
  \<open>price_desc\<close>, and among rows of equal price key the score keys never decrease. Rows
  without a price therefore come last under \<open>price_asc\<close> and first under \<open>price_desc\<close>.
\<close>

theorem price_order:
  assumes "\<forall>a\<in>set its. numeric a"
  shows "sorted_wrt
           (\<lambda>a b. (if resolve_order sb = ''price_asc''
                    then num_le (price_key a) (price_key b)
                    else num_le (price_key b) (price_key a))
                 \<and> (price_key a = price_key b \<longrightarrow> num_le (score_key a) (score_key b)))
           (final_order (resolve_order sb) kl its)"
proof -
  have s: "sorted_wrt (item_le (resolve_order sb = ''price_asc''))
          (final_order (resolve_order sb) kl its)"
    unfolding final_order_def by (rule sorted_wrt_js_slice0) (rule sorted_items[OF assms])
  have "set (final_order (resolve_order sb) kl its) \<subseteq> set its"
    unfolding final_order_def js_slice0_def Let_def
    using set_take_subset[of _ "js_sort (compare_items (dir_of (resolve_order sb))) its"]
    by (simp add: set_js_sort)
  then have n: "\<forall>a\<in>set (final_order (resolve_order sb) kl its). numeric a"
    using assms by blast
  show ?thesis
    by (rule sorted_wrt_mono_rel[OF _ s]) (use n item_le_keys in blast)
qed

theorem price_order_witness:
  "list_all numeric [sample_item ''A'' (Some (Fin 20)) (Some (Fin (1/10))), sample_item ''N'' None (Some (Fin (2/10))),
                     sample_item ''B'' (Some (Fin 10)) (Some (Fin (3/10)))]
   \<and> sorted_wrt
           (\<lambda>a b. (if resolve_order (Some ''price_asc'') = ''price_asc''
                    then num_le (price_key a) (price_key b)
                    else num_le (price_key b) (price_key a))
                 \<and> (price_key a = price_key b \<longrightarrow> num_le (score_key a) (score_key b)))
           (final_order (resolve_order (Some ''price_asc'')) 5
              [sample_item ''A'' (Some (Fin 20)) (Some (Fin (1/10))), sample_item ''N'' None (Some (Fin (2/10))),
               sample_item ''B'' (Some (Fin 10)) (Some (Fin (3/10)))])
   \<and> final_order (resolve_order (Some ''price_asc'')) 5
              [sample_item ''A'' (Some (Fin 20)) (Some (Fin (1/10))), sample_item ''N'' None (Some (Fin (2/10))),
               sample_item ''B'' (Some (Fin 10)) (Some (Fin (3/10)))]
       = [sample_item ''B'' (Some (Fin 10)) (Some (Fin (3/10))), sample_item ''A'' (Some (Fin 20)) (Some (Fin (1/10))),
          sample_item ''N'' None (Some (Fin (2/10)))]"
proof -
  have n: "\<forall>a\<in>set [sample_item ''A'' (Some (Fin 20)) (Some (Fin (1/10))), sample_item ''N'' None (Some (Fin (2/10))),
                     sample_item ''B'' (Some (Fin 10)) (Some (Fin (3/10)))]. numeric a"
    by (simp add: numeric_def sample_item_def)
  have e: "final_order (resolve_order (Some ''price_asc'')) 5
              [sample_item ''A'' (Some (Fin 20)) (Some (Fin (1/10))), sample_item ''N'' None (Some (Fin (2/10))),
               sample_item ''B'' (Some (Fin 10)) (Some (Fin (3/10)))]
       = [sample_item ''B'' (Some (Fin 10)) (Some (Fin (3/10))), sample_item ''A'' (Some (Fin 20)) (Some (Fin (1/10))),
          sample_item ''N'' None (Some (Fin (2/10)))]"
    by code_simp
  show ?thesis
    using price_order[OF n, of "Some ''price_asc''" 5] n e by (simp add: list_all_iff)
qed

text \<open>
  C3 as stated fails under \<open>price_desc\<close>: the row without a price is returned first, not
  last. And a price that \<open>Number\<close> reads as \<open>NaN\<close> is of type number, so its key is
  \<open>NaN\<close> and not \<open>+Infinity\<close>.
\<close>

theorem price_order_counterexample:
  "final_order (resolve_order (Some ''price_desc'')) 5
     [sample_item ''A'' (Some (Fin 20)) None, sample_item ''N'' None None]
   = [sample_item ''N'' None None, sample_item ''A'' (Some (Fin 20)) None]
   \<and> price_key (sample_item ''X'' (Some NaN) None) \<noteq> PInf"
  by code_simp

(* C5 *)

subsection \<open>The schema and the registry\<close>

text \<open>
  C4, as amended. For every registry whose names are unique, free of \<open>/\<close>, \<open>~\<close> and \<open>%\<close>
  and neither \<open>__proto__\<close> nor \<open>component\<close>, and whose components declare their parameters
  as an object without a parameter called \<open>name\<close>, and for every depth \<open>n > 0\<close>: the
  generated tool accepts \<open>{component: inst}\<close> at depth \<open>n + 4\<close> exactly when \<open>inst\<close> is, for
  some registered component, an object holding the literal name and exactly the declared
  parameters, each valid against its fragment at depth \<open>n\<close>; and a nested node, reached
  through \<open>#/$defs/component\<close>, is valid at depth \<open>n + 4\<close> under exactly the same condition.
  So, at the top and at every nested node, every instance of a registered component is
  accepted, an object whose name is not registered is rejected, and so is an object that
  carries a member its component does not declare.
\<close>

theorem schema_round_trip:
  assumes "registry_ok cs" and "0 < n"
  shows "accepts (n + 4) cs inst = (\<exists>c\<in>set cs. instance_of n cs c inst)
       \<and> accepts_nested (n + 4) cs inst = (\<exists>c\<in>set cs. instance_of n cs c inst)
       \<and> (\<forall>mems nm. inst = JObj mems \<longrightarrow> (''name'', JStr nm) \<in> set mems \<longrightarrow>
              nm \<notin> name ` set cs \<longrightarrow>
              \<not> accepts (n + 4) cs inst \<and> \<not> accepts_nested (n + 4) cs inst)
       \<and> (\<forall>mems c key. inst = JObj mems \<longrightarrow> c \<in> set cs \<longrightarrow>
              (''name'', JStr (name c)) \<in> set mems \<longrightarrow> key \<in> fst ` set mems \<longrightarrow>
              key \<noteq> ''name'' \<longrightarrow> key \<notin> fst ` set (parameters c) \<longrightarrow>
              \<not> accepts (n + 4) cs inst \<and> \<not> accepts_nested (n + 4) cs inst)"
proof -
  obtain m where n: "n = Suc m" using assms(2) by (cases n) auto
  have eq: "accepts (n + 4) cs inst = (\<exists>c\<in>set cs. instance_of n cs c inst)"
    unfolding n by (rule accepts_iff[OF assms(1)])
  have eqn: "accepts_nested (n + 4) cs inst = (\<exists>c\<in>set cs. instance_of n cs c inst)"
    unfolding n by (rule accepts_nested_iff[OF assms(1)])
  have d: "distinct (map name cs)" using assms(1) by (simp add: registry_ok_def)
  have unreg: "\<not> (\<exists>c\<in>set cs. instance_of n cs c inst)"
    if i: "inst = JObj mems" and nmem: "(''name'', JStr nm) \<in> set mems"
      and unk: "nm \<notin> name ` set cs" for mems nm
  proof
    assume "\<exists>c\<in>set cs. instance_of n cs c inst"
    then obtain c where c: "c \<in> set cs" "instance_of n cs c (JObj mems)" using i by blast
    then have "JStr nm = JStr (name c)" using instance_name nmem by blast
    then show False using unk c(1) by auto
  qed
  have undecl: "\<not> (\<exists>c\<in>set cs. instance_of n cs c inst)"
    if i: "inst = JObj mems" and cin: "c \<in> set cs"
      and nmem: "(''name'', JStr (name c)) \<in> set mems"
      and kin: "key \<in> fst ` set mems" and kn: "key \<noteq> ''name''"
      and kp: "key \<notin> fst ` set (parameters c)" for mems c key
  proof
    assume "\<exists>c\<in>set cs. instance_of n cs c inst"
    then obtain c' where c': "c' \<in> set cs" "instance_of n cs c' (JObj mems)" using i by blast
    then have "JStr (name c) = JStr (name c')" using instance_name nmem by blast
    then have "c' = c" using d c'(1) cin by (auto simp: distinct_map inj_on_def)
    then have "key \<in> insert ''name'' (fst ` set (parameters c))"
      using instance_keys[OF c'(2)] kin by simp
    then show False using kn kp by simp
  qed
  have 3: "\<forall>mems nm. inst = JObj mems \<longrightarrow> (''name'', JStr nm) \<in> set mems \<longrightarrow>
              nm \<notin> name ` set cs \<longrightarrow>
              \<not> accepts (n + 4) cs inst \<and> \<not> accepts_nested (n + 4) cs inst"
    unfolding eq eqn using unreg by blast
  have 4: "\<forall>mems c key. inst = JObj mems \<longrightarrow> c \<in> set cs \<longrightarrow>
              (''name'', JStr (name c)) \<in> set mems \<longrightarrow> key \<in> fst ` set mems \<longrightarrow>
              key \<noteq> ''name'' \<longrightarrow> key \<notin> fst ` set (parameters c) \<longrightarrow>
              \<not> accepts (n + 4) cs inst \<and> \<not> accepts_nested (n + 4) cs inst"
    unfolding eq eqn using undecl by blast
  show ?thesis using eq eqn 3 4 by (intro conjI)
qed

text \<open>
  The header of the sample registry is accepted at the top, nested and as a child of a
  card; a header with a member \<open>color\<close> and a node called \<open>footer\<close> are rejected.
\<close>

theorem schema_round_trip_witness:
  "registry_ok sample_components
   \<and> instance_of 1 sample_components (sample_components ! 0) sample_header
   \<and> accepts 5 sample_components sample_header
   \<and> accepts_nested 5 sample_components sample_header
   \<and> accepts 10 sample_components (JObj [(''name'', JStr ''card''), (''children'', JArr [sample_header])])
   \<and> \<not> accepts 5 sample_components
         (JObj [(''name'', JStr ''header''), (''content'', JStr ''Idee regalo''), (''color'', JStr ''red'')])
   \<and> \<not> accepts_nested 5 sample_components
         (JObj [(''name'', JStr ''footer''), (''content'', JStr ''Idee regalo'')])"
proof -
  have r: "registry_ok sample_components" by code_simp
  have i: "instance_of 1 sample_components (sample_components ! 0) sample_header" by code_simp
  have m: "sample_components ! 0 \<in> set sample_components" by (simp add: sample_components_def)
  have ex: "\<exists>c\<in>set sample_components. instance_of 1 sample_components c sample_header"
    using i m by blast
  have a: "accepts 5 sample_components sample_header"
    using schema_round_trip[OF r, of 1 sample_header, THEN conjunct1] ex by simp
  have a': "accepts_nested 5 sample_components sample_header"
    using schema_round_trip[OF r, of 1 sample_header, THEN conjunct2, THEN conjunct1] ex by simp
  have i2: "\<exists>c\<in>set sample_components. instance_of 6 sample_components c
              (JObj [(''name'', JStr ''card''), (''children'', JArr [sample_header])])"
    by code_simp
  have b: "accepts 10 sample_components (JObj [(''name'', JStr ''card''), (''children'', JArr [sample_header])])"
    using schema_round_trip[OF r, of 6 "JObj [(''name'', JStr ''card''), (''children'', JArr [sample_header])]",
        THEN conjunct1] i2
    by simp
  have n0: "name (sample_components ! 0) = ''header''"
    and p0: "fst ` set (parameters (sample_components ! 0)) = {''content''}"
    by (simp_all add: sample_components_def)
  have k: "''color'' \<in> fst ` set [(''name'', JStr ''header''), (''content'', JStr ''Idee regalo''), (''color'', JStr ''red'')]"
    by simp
  have "\<not> accepts (1 + 4) sample_components
         (JObj [(''name'', JStr ''header''), (''content'', JStr ''Idee regalo''), (''color'', JStr ''red'')])
        \<and> \<not> accepts_nested (1 + 4) sample_components
         (JObj [(''name'', JStr ''header''), (''content'', JStr ''Idee regalo''), (''color'', JStr ''red'')])"
    by (rule schema_round_trip[OF r, of 1, THEN conjunct2, THEN conjunct2, THEN conjunct2, rule_format,
          OF _ refl m _ k])
       (simp_all add: n0 p0)
  then have c: "\<not> accepts 5 sample_components
         (JObj [(''name'', JStr ''header''), (''content'', JStr ''Idee regalo''), (''color'', JStr ''red'')])"
    by simp
  have nm: "''footer'' \<notin> name ` set sample_components" by (simp add: sample_components_def)
  have "\<not> accepts (1 + 4) sample_components
         (JObj [(''name'', JStr ''footer''), (''content'', JStr ''Idee regalo'')])
        \<and> \<not> accepts_nested (1 + 4) sample_components
         (JObj [(''name'', JStr ''footer''), (''content'', JStr ''Idee regalo'')])"
    by (rule schema_round_trip[OF r, of 1, THEN conjunct2, THEN conjunct2, THEN conjunct1, rule_format,
          OF _ refl _ nm])
       simp_all
  then have d: "\<not> accepts_nested 5 sample_components
         (JObj [(''name'', JStr ''footer''), (''content'', JStr ''Idee regalo'')])"
    by simp
  show ?thesis using r i a a' b c d by simp
qed

text \<open>
  C4 as stated, for every registry, fails. The spread at line 15 puts a parameter called
  \<open>name\<close> over the literal, and the tool then accepts a name that is not registered. The
  other conditions are needed as well, shown here at depth 12 (a sound registry accepts a
  flat instance from depth 5 and a card with one child from depth 10). Of two components
  with one name the second overwrites the first at line 8, and an instance of the first is
  rejected. For a component called \<open>__proto__\<close> line 8 adds no definition, and for one
  whose name holds a \<open>/\<close> the reference of line 4 points elsewhere: their instances are
  rejected. A component called \<open>component\<close> overwrites the union of line 39, and a card
  with a header as child is rejected.
\<close>

theorem schema_round_trip_counterexample:
  "accepts 5 [\<lparr> name = ''header'', parameters = [(''name'', JObj [(''type'', JStr ''string'')])] \<rparr>]
     (JObj [(''name'', JStr ''anything'')])
   \<and> \<not> accepts 12
         [\<lparr> name = ''header'', parameters = [(''content'', JObj [(''type'', JStr ''string'')])] \<rparr>,
          \<lparr> name = ''header'', parameters = [(''title'', JObj [(''type'', JStr ''string'')])] \<rparr>]
         sample_header
   \<and> map fst (tool_defs [\<lparr> name = ''__proto__'', parameters = [] \<rparr>]) = [''component'']
   \<and> \<not> accepts 12 [\<lparr> name = ''__proto__'', parameters = [] \<rparr>] (JObj [(''name'', JStr ''__proto__'')])
   \<and> \<not> accepts 12 [\<lparr> name = ''a/b'', parameters = [] \<rparr>] (JObj [(''name'', JStr ''a/b'')])
   \<and> accepts 12 sample_components
         (JObj [(''name'', JStr ''card''), (''children'', JArr [sample_header])])
   \<and> \<not> accepts 12 (sample_components @ [\<lparr> name = ''component'', parameters = [] \<rparr>])
         (JObj [(''name'', JStr ''card''), (''children'', JArr [sample_header])])"
  by code_simp

subsection \<open>The index query and its retry\<close>

text \<open>
  C5. For every request whose text passes the check and whose client and embedding calls
  succeed, the \<open>FT.SEARCH\<close> commands sent during the whole run are: the argument list
  with the dialect flag alone when that command succeeds; otherwise that list followed by
  the same list without its last two arguments, \<open>DIALECT\<close> and \<open>2\<close>, and nothing more.
\<close>

theorem single_dialect_retry:
  assumes "query_text req = Some (JStr qt)" and "qt \<noteq> []"
    and "getRedisClient h [] = None"
    and "embeddings_create h [GetRedisClient] (expandedQuery req qt) = Inr vec"
    and "args = argsWithDialect h (filterExpr h req) (kQuery_of (kLimit_req req)) vec"
  shows "ft_search_calls (snd (POST h req)) =
           (case ft_search h [GetRedisClient, EmbeddingsCreate (expandedQuery req qt)] args of
              Inr raw \<Rightarrow> [args]
            | Inl e \<Rightarrow> [args, argsNoDialect args])
         \<and> args = argsNoDialect args @ [S ''DIALECT'', S ''2'']"
proof -
  obtain as bs where h1: "args = S ''FT.SEARCH'' # as" and h2: "argsNoDialect args = S ''FT.SEARCH'' # bs"
    using args_head assms(5) by metis
  have "ft_search_calls (snd (query_index h req)) =
           (case ft_search h [GetRedisClient, EmbeddingsCreate (expandedQuery req qt)] args of
              Inr raw \<Rightarrow> [args]
            | Inl e \<Rightarrow> [args, argsNoDialect args])"
    using assms(1-4) assms(5)[symmetric] h2
    by (auto simp: query_index_def Let_def ft_search_calls_append h1 split: sum.splits)
  then show ?thesis using argsNoDialect_args assms(5) by (simp add: ft_search_calls_POST)
qed

theorem single_dialect_retry_witness:
  "ft_search (legacy_host docsAB) [GetRedisClient, EmbeddingsCreate ''agenda gatti'']
      (argsWithDialect (legacy_host docsAB) ''*'' 15 [1 / 2, 1 / 4])
     = Inl (Error ''ReplyError'' ''Unknown argument DIALECT'')
   \<and> ft_search_calls (snd (POST (legacy_host docsAB) (sample_request ''agenda gatti''))) =
       [argsWithDialect (legacy_host docsAB) ''*'' 15 [1 / 2, 1 / 4],
        argsNoDialect (argsWithDialect (legacy_host docsAB) ''*'' 15 [1 / 2, 1 / 4])]
   \<and> status (fst (POST (legacy_host docsAB) (sample_request ''agenda gatti''))) = 200"
proof -
  let ?h = "legacy_host docsAB" and ?r = "sample_request ''agenda gatti''"
  have q: "query_text ?r = Some (JStr ''agenda gatti'')" by (simp add: sample_request_def)
  have ne: "''agenda gatti'' \<noteq> []" by simp
  have c: "getRedisClient ?h [] = None" by (simp add: legacy_host_def sample_host_def)
  have x: "expandedQuery ?r ''agenda gatti'' = ''agenda gatti''" by code_simp
  have e: "embeddings_create ?h [GetRedisClient] (expandedQuery ?r ''agenda gatti'') = Inr [1 / 2, 1 / 4]"
    by (simp add: legacy_host_def sample_host_def)
  have a: "argsWithDialect ?h ''*'' 15 [1 / 2, 1 / 4] =
           argsWithDialect ?h (filterExpr ?h ?r) (kQuery_of (kLimit_req ?r)) [1 / 2, 1 / 4]"
    by (simp add: filterExpr_def sample_request_def kQuery_of_def kLimit_req_def kLimit_of_def)
  have f: "ft_search ?h [GetRedisClient, EmbeddingsCreate ''agenda gatti'']
      (argsWithDialect ?h ''*'' 15 [1 / 2, 1 / 4])
     = Inl (Error ''ReplyError'' ''Unknown argument DIALECT'')"
    by (simp add: legacy_host_def argsWithDialect_def)
  have s: "status (fst (POST ?h ?r)) = 200" by code_simp
  show ?thesis
    using single_dialect_retry[OF q ne c e a] f s by (simp add: x)
qed

(* C6 *)

subsection \<open>Failures of the detail lookup\<close>

text \<open>
  C6, as amended. When the index has answered with the documents \<open>raw\<close>, the response has
  status 200 whatever the detail lookups do. The rows that enter the final ordering are
  one per document, in order; the row of a document whose lookup throws, or returns a text
  that is no JSON, is the parsed row with no detail payload. The returned rows, details
  apart, are the ordering and cap applied to the parsed rows, so no lookup outcome drops or
  moves a candidate; the row of the failed lookup is in the returned list whenever the
  candidates are no more than the cap, and is otherwise subject to the cap like every
  other row.
\<close>

theorem detail_failure_swallowed:
  assumes "query_index h req = (Inr raw, t)" and "i < length raw"
    and "incl = (case include_details req of Some b \<Rightarrow> b | None \<Rightarrow> True)"
    and "lookup_failed h (snd (build_items h incl t (take i raw))) (row_of h (raw ! i))"
  shows "status (fst (POST h req)) = 200
       \<and> length (fst (build_items h incl t raw)) = length raw
       \<and> fst (build_items h incl t raw) ! i = row_of h (raw ! i)
       \<and> product (row_of h (raw ! i)) = None
       \<and> items (fst (POST h req)) =
           final_order (resolve_order (sort_by req)) (kLimit_req req) (fst (build_items h incl t raw))
       \<and> map strip (items (fst (POST h req))) =
           final_order (resolve_order (sort_by req)) (kLimit_req req) (map (row_of h) raw)
       \<and> (of_nat (length raw) \<le> kLimit_req req \<longrightarrow>
            row_of h (raw ! i) \<in> set (items (fst (POST h req))))"
proof -
  have 1: "status (fst (POST h req)) = 200" using assms(1) status_POST[of h req raw] by simp
  have 2: "fst (build_items h incl t raw) ! i = row_of h (raw ! i)"
    using nth_build_items[OF assms(2), of h incl t] add_details_failed[OF assms(4), of incl] by simp
  have 3: "product (row_of h (raw ! i)) = None"
    by (cases "raw ! i") (simp add: mk_row_def)
  have 4: "items (fst (POST h req)) =
           final_order (resolve_order (sort_by req)) (kLimit_req req) (fst (build_items h incl t raw))"
    using assms(1,3) by (simp add: items_POST)
  have 5: "map strip (items (fst (POST h req))) =
           final_order (resolve_order (sort_by req)) (kLimit_req req) (map (row_of h) raw)"
    unfolding 4 final_order_strip strip_build_items by (simp add: strip_row_of)
  have 6: "row_of h (raw ! i) \<in> set (items (fst (POST h req)))"
    if le: "of_nat (length raw) \<le> kLimit_req req"
  proof -
    let ?its = "fst (build_items h incl t raw)"
    let ?srt = "js_sort (compare_items (dir_of (resolve_order (sort_by req)))) ?its"
    have l: "length ?srt = length raw" by (simp add: length_js_sort length_build_items)
    have "int (length raw) \<le> \<lfloor>kLimit_req req\<rfloor>" using le by (simp add: le_floor_iff)
    moreover have "0 \<le> kLimit_req req" using le of_nat_0_le_iff[of "length raw"] by linarith
    ultimately have "js_slice0 ?srt (kLimit_req req) = ?srt"
      using l by (simp add: js_slice0_def Let_def js_trunc_def)
    then have "set (items (fst (POST h req))) = set ?its"
      unfolding 4 final_order_def by (simp add: set_js_sort)
    moreover have "?its ! i \<in> set ?its"
      using assms(2) by (simp add: length_build_items)
    ultimately show ?thesis using 2 by simp
  qed
  show ?thesis using 1 2 3 4 5 6 length_build_items by blast
qed

theorem detail_failure_swallowed_witness:
  "fst (query_index (catalog_host docsAB) (sample_request ''agenda gatti'')) = Inr docsAB
   \<and> lookup_failed (catalog_host docsAB)
        (snd (build_items (catalog_host docsAB) True
               (snd (query_index (catalog_host docsAB) (sample_request ''agenda gatti''))) (take 1 docsAB)))
        (row_of (catalog_host docsAB) (docsAB ! 1))
   \<and> status (fst (POST (catalog_host docsAB) (sample_request ''agenda gatti''))) = 200
   \<and> map code (items (fst (POST (catalog_host docsAB) (sample_request ''agenda gatti''))))
       = [Some ''B'', Some ''A'']
   \<and> map product (items (fst (POST (catalog_host docsAB) (sample_request ''agenda gatti''))))
       = [None, None]
   \<and> row_of (catalog_host docsAB) (docsAB ! 1)
       \<in> set (items (fst (POST (catalog_host docsAB) (sample_request ''agenda gatti''))))"
proof -
  let ?h = "catalog_host docsAB" and ?r = "sample_request ''agenda gatti''"
  have q: "fst (query_index ?h ?r) = Inr docsAB" by code_simp
  then have q': "query_index ?h ?r = (Inr docsAB, snd (query_index ?h ?r))"
    by (metis prod.collapse)
  have i: "(1::nat) < length docsAB" by (simp add: docsAB_def)
  have incl: "True = (case include_details ?r of Some b \<Rightarrow> b | None \<Rightarrow> True)"
    by (simp add: sample_request_def)
  have l: "lookup_failed ?h (snd (build_items ?h True (snd (query_index ?h ?r)) (take 1 docsAB)))
        (row_of ?h (docsAB ! 1))"
    by code_simp
  have c: "map code (items (fst (POST ?h ?r))) = [Some ''B'', Some ''A'']" by code_simp
  have p: "map product (items (fst (POST ?h ?r))) = [None, None]" by code_simp
  have le: "of_nat (length docsAB) \<le> kLimit_req ?r"
    by (simp add: docsAB_def sample_request_def kLimit_req_def kLimit_of_def)
  have mem: "row_of ?h (docsAB ! 1) \<in> set (items (fst (POST ?h ?r)))"
    using detail_failure_swallowed[OF q' i incl l] le by blast
  have st: "status (fst (POST ?h ?r)) = 200"
    using detail_failure_swallowed[OF q' i incl l] by blast
  show ?thesis
    using q l st c p mem by (intro conjI)
qed

text \<open>
  C6 as stated fails: the candidate is not always in the returned list. The index returns
  six documents; the lookup of \<open>A\<close>, the dearest, throws; the response has status 200 and
  holds the five cheapest rows, without \<open>A\<close>.
\<close>

theorem failed_lookup_row_cut_by_cap:
  "fst (query_index (catalog_host docsA6) (sample_request ''agenda gatti'')) = Inr docsA6
   \<and> code (row_of (catalog_host docsA6) (docsA6 ! 0)) = Some ''A''
   \<and> lookup_failed (catalog_host docsA6)
        (snd (build_items (catalog_host docsA6) True
               (snd (query_index (catalog_host docsA6) (sample_request ''agenda gatti''))) (take 0 docsA6)))
        (row_of (catalog_host docsA6) (docsA6 ! 0))
   \<and> status (fst (POST (catalog_host docsA6) (sample_request ''agenda gatti''))) = 200
   \<and> map code (items (fst (POST (catalog_host docsA6) (sample_request ''agenda gatti''))))
       = [Some ''P3'', Some ''P1'', Some ''P5'', Some ''P4'', Some ''P2'']"
  by code_simp

(* C7 *)

subsection \<open>Rejected requests\<close>




subsection \<open>The error response\<close>




subsection \<open>The grid\<close>

text \<open>
  C9, as amended. A \<open>columns\<close> value of 6 or more gives six columns; 2, 4 and 5 give
  themselves; every other value, and an absent one, gives the baseline of three. The
  children are laid out in descending order of their numeric \<open>match\<close>, a child without one
  counting as 0, and they are the given children.
\<close>

theorem plp_grid_layout:
  "fst (PlpGridComponent children columns) =
     ''grid grid-cols-1 '' @
     (case columns of
        None \<Rightarrow> ''md:grid-cols-3''
      | Some c \<Rightarrow>
          if 6 \<le> c then ''md:grid-cols-6''
          else if c = 2 then ''md:grid-cols-2''
          else if c = 4 then ''md:grid-cols-4''
          else if c = 5 then ''md:grid-cols-5''
          else ''md:grid-cols-3'') @ '' gap-4 w-full''
   \<and> sorted_wrt (\<lambda>a b. match_key b \<le> match_key a) (snd (PlpGridComponent children columns))
   \<and> mset (snd (PlpGridComponent children columns)) =
       mset (case children of Some cs \<Rightarrow> cs | None \<Rightarrow> [])"
proof -
  have 1: "gridColsClass (plp_cols columns) =
     (case columns of
        None \<Rightarrow> ''md:grid-cols-3''
      | Some c \<Rightarrow>
          if 6 \<le> c then ''md:grid-cols-6''
          else if c = 2 then ''md:grid-cols-2''
          else if c = 4 then ''md:grid-cols-4''
          else if c = 5 then ''md:grid-cols-5''
          else ''md:grid-cols-3'')"
    by (cases columns) (auto simp: gridColsClass_def plp_cols_def min_def)
  have 2: "sorted_wrt (\<lambda>a b. match_key b \<le> match_key a) (sorted_children children)"
    unfolding sorted_children_def
    by (rule sorted_wrt_js_sort) (auto simp: is_pos_def)
  show ?thesis
    using 1 2 by (simp add: PlpGridComponent_def sorted_children_def mset_js_sort)
qed

text \<open>The children with matches 0.2, 0.9, none and 0.5 are laid out as 0.9, 0.5, 0.2, none.\<close>

theorem plp_grid_layout_witness:
  "PlpGridComponent
     (Some [JObj [(''match'', JNum (2 / 10))], JObj [(''match'', JNum (9 / 10))],
            JObj [(''name'', JStr ''item'')], JObj [(''match'', JNum (5 / 10))]]) None
   = (''grid grid-cols-1 md:grid-cols-3 gap-4 w-full'',
      [JObj [(''match'', JNum (9 / 10))], JObj [(''match'', JNum (5 / 10))],
       JObj [(''match'', JNum (2 / 10))], JObj [(''name'', JStr ''item'')]])"
proof -
  have "snd (PlpGridComponent
     (Some [JObj [(''match'', JNum (2 / 10))], JObj [(''match'', JNum (9 / 10))],
            JObj [(''name'', JStr ''item'')], JObj [(''match'', JNum (5 / 10))]]) None)
    = [JObj [(''match'', JNum (9 / 10))], JObj [(''match'', JNum (5 / 10))],
       JObj [(''match'', JNum (2 / 10))], JObj [(''name'', JStr ''item'')]]"
    by code_simp
  then show ?thesis
    using plp_grid_layout[of "Some [JObj [(''match'', JNum (2 / 10))], JObj [(''match'', JNum (9 / 10))],
            JObj [(''name'', JStr ''item'')], JObj [(''match'', JNum (5 / 10))]]" None]
    by (simp add: prod_eq_iff)
qed

(* C10 *)

text \<open>C9 as stated fails at 7 and at 10, which give six columns and not three.\<close>

theorem columns_seven_gives_six:
  "fst (PlpGridComponent None (Some 7)) = ''grid grid-cols-1 md:grid-cols-6 gap-4 w-full''
   \<and> fst (PlpGridComponent None (Some 10)) = ''grid grid-cols-1 md:grid-cols-6 gap-4 w-full''
   \<and> fst (PlpGridComponent None (Some 1)) = ''grid grid-cols-1 md:grid-cols-3 gap-4 w-full''"
  by code_simp

subsection \<open>The detail lookup by id\<close>

text \<open>
  C10. When both \<open>code\<close> and \<open>id\<close> are given, the only command sent is \<open>JSON.GET\<close> on the
  prefix followed by \<open>id\<close>, so the product returned does not depend on \<open>code\<close>. The
  \<open>code\<close> field of the response is the stored product's \<open>code\<close> when the product and that
  field are truthy, otherwise the product's \<open>id\<close> when truthy, and the \<open>code\<close> parameter
  only when the product has neither.
\<close>

theorem lookup_by_id_echo_stored_code:
  assumes "c \<noteq> []" and "i \<noteq> []" and "getRedisClient h [] = None"
    and "pr = fetch_product h [GetRedisClient] [S ''JSON.GET'', S (JSON_PREFIX h @ i)]"
    and "r = fst (GET h (Some c) (Some i))"
  shows "snd (GET h (Some c) (Some i)) =
           [GetRedisClient, SendCommand [S ''JSON.GET'', S (JSON_PREFIX h @ i)]]
       \<and> get_product r = pr
       \<and> (\<forall>v. truthy pr \<longrightarrow> js_get pr ''code'' = Some v \<longrightarrow> truthy v \<longrightarrow> get_code r = v)
       \<and> (\<forall>v. truthy pr \<longrightarrow> (\<forall>w. js_get pr ''code'' = Some w \<longrightarrow> \<not> truthy w) \<longrightarrow>
              js_get pr ''id'' = Some v \<longrightarrow> truthy v \<longrightarrow> get_code r = v)
       \<and> (\<not> truthy pr \<or> ((\<forall>w. js_get pr ''code'' = Some w \<longrightarrow> \<not> truthy w)
                           \<and> (\<forall>w. js_get pr ''id'' = Some w \<longrightarrow> \<not> truthy w))
            \<longrightarrow> get_code r = JStr c)"
  using assms
  by (cases "js_get pr ''code''"; cases "js_get pr ''id''")
     (auto simp: GET_def param_def Let_def codeOut_def js_or_def js_and_def)

(* C1 *)

theorem lookup_by_id_echo_stored_code_witness:
  "snd (GET (catalog_host []) (Some ''ZZ'') (Some ''7''))
     = [GetRedisClient, SendCommand [S ''JSON.GET'', S ''prod:7'']]
   \<and> get_product (fst (GET (catalog_host []) (Some ''ZZ'') (Some ''7'')))
     = JObj [(''code'', JStr ''A1''), (''id'', JStr ''7'')]
   \<and> get_code (fst (GET (catalog_host []) (Some ''ZZ'') (Some ''7''))) = JStr ''A1''"
proof -
  let ?h = "catalog_host []"
  have c: "getRedisClient ?h [] = None" by (simp add: catalog_host_def sample_host_def)
  have p: "JSON_PREFIX ?h = ''prod:''" by (simp add: catalog_host_def sample_host_def)
  have f: "JObj [(''code'', JStr ''A1''), (''id'', JStr ''7'')] =
           fetch_product ?h [GetRedisClient] [S ''JSON.GET'', S (JSON_PREFIX ?h @ ''7'')]"
    by code_simp
  have z: "''ZZ'' \<noteq> []" "''7'' \<noteq> []" by simp_all
  show ?thesis
    using lookup_by_id_echo_stored_code[OF z c f refl] by (simp add: p)
qed

end
